theory Spec2Isabelle
  imports Main
begin

section \<open>Strings and path names\<close>

text \<open>
  File names are Python \<open>str\<close> values; they are modelled as \<open>string\<close> (lists of
  8-bit characters), so \<open>str.lower\<close> is modelled on the ASCII letters only.
  A path is the list of its components: \<open>os.path.join(p, name)\<close> is \<open>p @ [name]\<close>
  for the plain names that \<open>os.listdir\<close> returns, and the empty list stands for the
  empty (falsy) path string.
\<close>

type_synonym path = "string list"

definition lower_char :: "char \<Rightarrow> char" where
  "lower_char c =
     (case map_of (zip ''ABCDEFGHIJKLMNOPQRSTUVWXYZ'' ''abcdefghijklmnopqrstuvwxyz'') c of
        Some d \<Rightarrow> d
      | None \<Rightarrow> c)"

definition lower :: "string \<Rightarrow> string" where
  "lower s = map lower_char s"

fun startswith :: "string \<Rightarrow> string \<Rightarrow> bool" where
  "startswith s [] = True"
| "startswith [] (c # cs) = False"
| "startswith (x # xs) (c # cs) = (x = c \<and> startswith xs cs)"

text \<open>\<open>str_contains sub s\<close> is Python's \<open>sub in s\<close> on strings.\<close>

fun str_contains :: "string \<Rightarrow> string \<Rightarrow> bool" where
  "str_contains sub [] = (sub = [])"
| "str_contains sub (x # xs) = (startswith (x # xs) sub \<or> str_contains sub xs)"

definition endswith :: "string \<Rightarrow> string \<Rightarrow> bool" where
  "endswith s suf = startswith (rev s) (rev suf)"

definition basename :: "path \<Rightarrow> string" where
  "basename p = (if p = [] then [] else last p)"

text \<open>\<open>rfind c s\<close> is \<open>s.rfind(c)\<close>, with \<open>None\<close> for \<open>-1\<close>.\<close>

fun rfind :: "char \<Rightarrow> string \<Rightarrow> nat option" where
  "rfind c [] = None"
| "rfind c (x # xs) =
     (case rfind c xs of
        Some i \<Rightarrow> Some (Suc i)
      | None \<Rightarrow> if x = c then Some 0 else None)"

text \<open>
  \<open>os.path.splitext\<close> on a name without directory separators: the extension starts at
  the last dot, unless only dots precede it.
\<close>

definition splitext :: "string \<Rightarrow> string \<times> string" where
  "splitext p =
     (case rfind (CHR ''.'') p of
        None \<Rightarrow> (p, [])
      | Some i \<Rightarrow>
          if list_ex (\<lambda>c. c \<noteq> CHR ''.'') (take i p) then (take i p, drop i p)
          else (p, []))"

section \<open>Extension classifier\<close>

text \<open>
  \<open>self.categories\<close> is read by the code but assigned nowhere in the repository; it is
  taken as a parameter: the insertion-ordered dictionary from category name to the
  category's \<open>extensions\<close> list.
\<close>

type_synonym categories = "(string \<times> string list) list"

definition shortcut_exts :: "string list" where
  "shortcut_exts = [''.lnk'', ''.url'', ''.desktop'']"

text \<open>The loop \<open>for category, info in self.categories.items()\<close> of
  \<open>get_category_for_extension\<close>, which returns from inside the loop.\<close>

fun scan_categories :: "categories \<Rightarrow> string \<Rightarrow> string" where
  "scan_categories [] ext = ''Others''"
| "scan_categories ((category, extensions) # rest) ext =
     (if ext \<in> set extensions then category else scan_categories rest ext)"

definition get_category_for_extension :: "categories \<Rightarrow> string \<Rightarrow> string" where
  "get_category_for_extension cats ext =
     (if ext \<in> set shortcut_exts then ''Shortcuts'' else scan_categories cats ext)"

text \<open>The classification written inline in \<open>move_to_category\<close>: a variable preset to
  \<open>Others\<close> and a loop that assigns and breaks.\<close>

fun assign_category :: "categories \<Rightarrow> string \<Rightarrow> string \<Rightarrow> string" where
  "assign_category [] ext category = category"
| "assign_category ((cat, extensions) # rest) ext category =
     (if ext \<in> set extensions then cat else assign_category rest ext category)"

definition category_of_move :: "categories \<Rightarrow> string \<Rightarrow> string" where
  "category_of_move cats ext =
     (let category = ''Others'' in
      if ext \<in> set shortcut_exts then ''Shortcuts''
      else assign_category cats ext category)"

section \<open>The file system, the statistics and the effects\<close>

text \<open>
  The file system is an association list from paths to nodes, in listing order; a
  regular file carries its size in bytes. The root \<open>[]\<close> is a directory. The state
  holds, next to the file system:
  \<^item> \<open>locks\<close>: for a path, the number of coming \<open>shutil.move\<close> calls on it that fail
    with \<open>PermissionError\<close> because another process holds the file;
  \<^item> \<open>unreadable\<close>: the paths on which \<open>os.stat\<close> fails;
  \<^item> \<open>stats\<close>: the dictionary \<open>self.stats\<close>;
  \<^item> \<open>log\<close>: the directory creations, \<open>shutil.move\<close> calls, sidecar writes and sleeps
    performed so far, in order.
\<close>

datatype node = File nat | Dir

datatype error =
  PermissionError | FileNotFoundError | FileExistsError | NotADirectoryError
  | IsADirectoryError | ShutilError

datatype event =
  Mkdir path
  | MoveCall path path "error option"
  | WriteFile path
  | Sleep nat

record stats =
  files_moved :: nat
  space_cleared :: nat
  errors :: nat

record state =
  fs :: "(path \<times> node) list"
  locks :: "(path \<times> nat) list"
  unreadable :: "path list"
  stats :: stats
  log :: "event list"

definition lookup :: "(path \<times> node) list \<Rightarrow> path \<Rightarrow> node option" where
  "lookup t p = (if p = [] then Some Dir else map_of t p)"

definition os_stat :: "state \<Rightarrow> path \<Rightarrow> error + node" where
  "os_stat s p =
     (if p \<in> set (unreadable s) then Inl PermissionError
      else case lookup (fs s) p of None \<Rightarrow> Inl FileNotFoundError | Some n \<Rightarrow> Inr n)"

text \<open>\<open>os.path.exists\<close>, \<open>isdir\<close> and \<open>isfile\<close> answer \<open>False\<close> when \<open>os.stat\<close> fails.\<close>

definition os_path_exists :: "state \<Rightarrow> path \<Rightarrow> bool" where
  "os_path_exists s p = (case os_stat s p of Inl e \<Rightarrow> False | Inr n \<Rightarrow> True)"

definition os_path_isdir :: "state \<Rightarrow> path \<Rightarrow> bool" where
  "os_path_isdir s p = (case os_stat s p of Inl e \<Rightarrow> False | Inr n \<Rightarrow> n = Dir)"

definition os_path_isfile :: "state \<Rightarrow> path \<Rightarrow> bool" where
  "os_path_isfile s p = (case os_stat s p of Inl e \<Rightarrow> False | Inr n \<Rightarrow> n \<noteq> Dir)"

definition children :: "(path \<times> node) list \<Rightarrow> path \<Rightarrow> string list" where
  "children t d = map (\<lambda>(p, n). last p) (filter (\<lambda>(p, n). p \<noteq> [] \<and> butlast p = d) t)"

definition os_listdir :: "state \<Rightarrow> path \<Rightarrow> error + string list" where
  "os_listdir s p =
     (case lookup (fs s) p of
        None \<Rightarrow> Inl FileNotFoundError
      | Some (File n) \<Rightarrow> Inl NotADirectoryError
      | Some Dir \<Rightarrow> Inr (children (fs s) p))"

text \<open>\<open>get_file_size\<close>: \<open>os.path.getsize\<close>, and 0 on any exception. The size that
  \<open>stat\<close> reports for a directory is taken as 0.\<close>

definition get_file_size :: "state \<Rightarrow> path \<Rightarrow> nat" where
  "get_file_size s file_path =
     (case os_stat s file_path of
        Inl e \<Rightarrow> 0
      | Inr (File n) \<Rightarrow> n
      | Inr Dir \<Rightarrow> 0)"

text \<open>The non-empty prefixes of a path, shortest first: the directories that
  \<open>os.makedirs\<close> visits.\<close>

fun path_prefixes :: "path \<Rightarrow> path list" where
  "path_prefixes [] = []"
| "path_prefixes (x # xs) = [x] # map ((#) x) (path_prefixes xs)"

fun mkdir_chain :: "path list \<Rightarrow> state \<Rightarrow> error option \<times> state" where
  "mkdir_chain [] s = (None, s)"
| "mkdir_chain (p # ps) s =
     (case lookup (fs s) p of
        Some Dir \<Rightarrow> mkdir_chain ps s
      | Some (File n) \<Rightarrow> (Some (if ps = [] then FileExistsError else NotADirectoryError), s)
      | None \<Rightarrow> mkdir_chain ps (s\<lparr>fs := fs s @ [(p, Dir)], log := log s @ [Mkdir p]\<rparr>))"

text \<open>\<open>os.makedirs(p, exist_ok=...)\<close>: creates the missing ancestors and the leaf;
  an existing leaf is an error unless it is a directory and \<open>exist_ok\<close> is set.\<close>

definition os_makedirs :: "path \<Rightarrow> bool \<Rightarrow> state \<Rightarrow> error option \<times> state" where
  "os_makedirs p exist_ok s =
     (if \<not> exist_ok \<and> lookup (fs s) p \<noteq> None then (Some FileExistsError, s)
      else mkdir_chain (path_prefixes p) s)"

fun is_prefix :: "path \<Rightarrow> path \<Rightarrow> bool" where
  "is_prefix [] q = True"
| "is_prefix (x # xs) [] = False"
| "is_prefix (x # xs) (y # ys) = (x = y \<and> is_prefix xs ys)"

text \<open>Renaming \<open>src\<close> to \<open>dst\<close>: what was at \<open>dst\<close> is replaced, and \<open>src\<close> with all
  that lies below it is re-rooted at \<open>dst\<close>, every entry keeping its place in the
  listing order.\<close>

definition rename_tree :: "path \<Rightarrow> path \<Rightarrow> (path \<times> node) list \<Rightarrow> (path \<times> node) list" where
  "rename_tree src dst t =
     map (\<lambda>(p, n). if is_prefix src p then (dst @ drop (length src) p, n) else (p, n))
       (filter (\<lambda>(p, n). \<not> is_prefix dst p) t)"

definition lock_count :: "state \<Rightarrow> path \<Rightarrow> nat" where
  "lock_count s p = (case map_of (locks s) p of None \<Rightarrow> 0 | Some n \<Rightarrow> n)"

text \<open>
  \<open>shutil.move(src, dst)\<close>. A source held by another process raises \<open>PermissionError\<close>
  and changes nothing. An existing directory \<open>dst\<close> receives the source under its own
  name, unless that name is taken. Otherwise the source is renamed to \<open>dst\<close>; a regular
  file at \<open>dst\<close> is replaced by a moved file (by \<open>os.rename\<close>, or by the copy that
  \<open>shutil.move\<close> falls back to when \<open>os.rename\<close> refuses).
\<close>

definition move_result :: "path \<Rightarrow> path \<Rightarrow> state \<Rightarrow> error option \<times> state" where
  "move_result src dst s =
     (if 0 < lock_count s src
      then (Some PermissionError,
            s\<lparr>locks := map (\<lambda>(p, n). if p = src then (p, n - 1) else (p, n)) (locks s)\<rparr>)
      else case lookup (fs s) src of
        None \<Rightarrow> (Some FileNotFoundError, s)
      | Some n \<Rightarrow>
          let real_dst = (if lookup (fs s) dst = Some Dir then dst @ [basename src] else dst) in
          if lookup (fs s) dst = Some Dir \<and> lookup (fs s) real_dst \<noteq> None
            then (Some ShutilError, s)
          else if is_prefix src real_dst then (Some ShutilError, s)
          else if lookup (fs s) (butlast real_dst) \<noteq> Some Dir then (Some FileNotFoundError, s)
          else if n = Dir \<and> lookup (fs s) real_dst \<noteq> None then (Some FileExistsError, s)
          else (None, s\<lparr>fs := rename_tree src real_dst (fs s)\<rparr>))"

definition shutil_move :: "path \<Rightarrow> path \<Rightarrow> state \<Rightarrow> error option \<times> state" where
  "shutil_move src dst s =
     (case move_result src dst s of
        (r, s1) \<Rightarrow> (r, s1\<lparr>log := log s1 @ [MoveCall src dst r]\<rparr>))"

definition time_sleep :: "nat \<Rightarrow> state \<Rightarrow> state" where
  "time_sleep secs s = s\<lparr>log := log s @ [Sleep secs]\<rparr>"

section \<open>System-entry filter\<close>

definition system_files :: "string list" where
  "system_files =
     [''desktop.ini'', ''recycle bin'', ''trash'', ''$recycle.bin'', ''.ds_store'', ''thumbs.db'']"

text \<open>The body of the \<open>try\<close> block of \<open>is_system_file\<close>; none of its calls raises on a
  path string, \<open>os.path.isdir\<close> answering \<open>False\<close> itself when \<open>stat\<close> fails.\<close>

definition is_system_file_body :: "state \<Rightarrow> path \<Rightarrow> error + bool" where
  "is_system_file_body s file_path =
     (let file_name = basename file_path; file_lower = lower file_name in
      if file_lower \<in> set system_files then Inr True
      else if os_path_isdir s file_path \<and>
              (str_contains ''$recycle.bin'' file_lower \<or> str_contains ''recycle bin'' file_lower)
        then Inr True
      else Inr False)"

definition is_system_file :: "state \<Rightarrow> path \<Rightarrow> bool" where
  "is_system_file s file_path =
     (case is_system_file_body s file_path of
        Inr b \<Rightarrow> b
      | Inl e \<Rightarrow> False)"

section \<open>Forward sweep: \<open>organize_folder\<close> of the old organizer\<close>

text \<open>The condition under which \<open>organize_folder\<close> appends an item to
  \<open>files_to_move\<close>.\<close>

definition to_move :: "state \<Rightarrow> path \<Rightarrow> string \<Rightarrow> bool" where
  "to_move s folder_path item =
     (let item_path = folder_path @ [item] in
      item \<noteq> ''Archive'' \<and> \<not> is_system_file s item_path \<and> \<not> str_contains ''archive'' (lower item))"

definition add_space_cleared :: "nat \<Rightarrow> state \<Rightarrow> state" where
  "add_space_cleared n s = s\<lparr>stats := (stats s)\<lparr>space_cleared := space_cleared (stats s) + n\<rparr>\<rparr>"

definition incr_files_moved :: "state \<Rightarrow> state" where
  "incr_files_moved s = s\<lparr>stats := (stats s)\<lparr>files_moved := files_moved (stats s) + 1\<rparr>\<rparr>"

definition incr_errors :: "state \<Rightarrow> state" where
  "incr_errors s = s\<lparr>stats := (stats s)\<lparr>errors := errors (stats s) + 1\<rparr>\<rparr>"

text \<open>
  The loop \<open>while retry_count > 0\<close>. The result is the exception that leaves the loop,
  if any: \<open>PermissionError\<close> re-raised when the count reaches 0, or any other exception
  of the \<open>try\<close> block at once.
\<close>

fun retry_move :: "nat \<Rightarrow> path \<Rightarrow> path \<Rightarrow> state \<Rightarrow> error option \<times> state" where
  "retry_move 0 item_path target_path s = (None, s)"
| "retry_move (Suc retry_count) item_path target_path s =
     (let s1 = add_space_cleared (get_file_size s item_path) s in
      case shutil_move item_path target_path s1 of
        (None, s2) \<Rightarrow> (None, incr_files_moved s2)
      | (Some PermissionError, s2) \<Rightarrow>
          let s3 = time_sleep 1 s2 in
          if retry_count = 0 then (Some PermissionError, s3)
          else retry_move retry_count item_path target_path s3
      | (Some e, s2) \<Rightarrow> (Some e, s2))"

text \<open>The loop \<open>for item in files_to_move\<close>, whose body is a \<open>try\<close> that counts any
  exception in \<open>errors\<close>.\<close>

fun move_items :: "path \<Rightarrow> path \<Rightarrow> string list \<Rightarrow> state \<Rightarrow> state" where
  "move_items folder_path dated_subfolder [] s = s"
| "move_items folder_path dated_subfolder (item # rest) s =
     (let item_path = folder_path @ [item];
          target_path = dated_subfolder @ [item] in
      case retry_move 3 item_path target_path s of
        (None, s1) \<Rightarrow> move_items folder_path dated_subfolder rest s1
      | (Some e, s1) \<Rightarrow> move_items folder_path dated_subfolder rest (incr_errors s1))"

text \<open>
  \<open>organize_folder\<close>; \<open>timestamp\<close> is the formatted \<open>datetime.now()\<close>. Every exception
  outside the per-item \<open>try\<close> ends the call, keeping what was done before it.
\<close>

definition organize_folder :: "string \<Rightarrow> path \<Rightarrow> state \<Rightarrow> state" where
  "organize_folder timestamp folder_path s =
     (if folder_path = [] \<or> \<not> os_path_exists s folder_path then s
      else
        let archive_folder = folder_path @ [''Archive''] in
        case (if \<not> os_path_exists s archive_folder then os_makedirs archive_folder False s
              else (None, s)) of
          (Some e, s1) \<Rightarrow> s1
        | (None, s1) \<Rightarrow>
            let dated_subfolder = archive_folder @ [timestamp] in
            case os_listdir s1 folder_path of
              Inl e \<Rightarrow> s1
            | Inr all_items \<Rightarrow>
                let files_to_move = filter (to_move s1 folder_path) all_items in
                if files_to_move \<noteq> [] then
                  case os_makedirs dated_subfolder True s1 of
                    (Some e, s2) \<Rightarrow> s2
                  | (None, s2) \<Rightarrow> move_items folder_path dated_subfolder files_to_move s2
                else s1)"

section \<open>Forward sweep: \<open>organize_folder\<close> of \<open>File_Organizer.py\<close>\<close>

text \<open>\<open>open(p, 'w')\<close> followed by the writes: the file is created or truncated. The
  content of the sidecar is not modelled, its node is recorded with size 0; nor are the
  attribute bits that the code sets afterwards, so a sidecar that exists is written
  again without error.\<close>

definition write_file :: "path \<Rightarrow> state \<Rightarrow> error option \<times> state" where
  "write_file p s =
     (case lookup (fs s) p of
        Some Dir \<Rightarrow> (Some IsADirectoryError, s)
      | Some (File n) \<Rightarrow>
          (None, s\<lparr>fs := map (\<lambda>(q, k). if q = p then (q, File 0) else (q, k)) (fs s),
                   log := log s @ [WriteFile p]\<rparr>)
      | None \<Rightarrow>
          if lookup (fs s) (butlast p) \<noteq> Some Dir then (Some FileNotFoundError, s)
          else (None, s\<lparr>fs := fs s @ [(p, File 0)], log := log s @ [WriteFile p]\<rparr>))"

text \<open>\<open>set_folder_color\<close>: nothing off Windows; otherwise the sidecar \<open>Desktop.ini\<close> is
  written and two attribute calls follow, which change no node. Its own \<open>try\<close> swallows
  every exception.\<close>

definition set_folder_color :: "string \<Rightarrow> path \<Rightarrow> string \<Rightarrow> state \<Rightarrow> state" where
  "set_folder_color os_type folder_path category s =
     (if os_type \<noteq> ''Windows'' then s
      else let ini_path = folder_path @ [''Desktop.ini''] in
           snd (write_file ini_path s))"

definition is_shortcut_name :: "string \<Rightarrow> bool" where
  "is_shortcut_name item =
     (endswith (lower item) ''.lnk'' \<or> endswith (lower item) ''.url''
      \<or> endswith (lower item) ''.desktop'')"

fun move_shortcut_items :: "path \<Rightarrow> path \<Rightarrow> string list \<Rightarrow> state \<Rightarrow> state" where
  "move_shortcut_items folder_path shortcuts_path [] s = s"
| "move_shortcut_items folder_path shortcuts_path (shortcut # rest) s =
     (let source_path = folder_path @ [shortcut];
          target_path = shortcuts_path @ [shortcut] in
      move_shortcut_items folder_path shortcuts_path rest
        (snd (shutil_move source_path target_path s)))"

text \<open>The body that \<open>File_Organizer.py\<close> gives to \<open>organize_folder\<close>: the shortcuts
  are handled, and a comment stands where the regular organization would follow.\<close>

definition organize_folder_shortcuts :: "string \<Rightarrow> string \<Rightarrow> path \<Rightarrow> state \<Rightarrow> state" where
  "organize_folder_shortcuts os_type timestamp folder_path s =
     (if folder_path = [] \<or> \<not> os_path_exists s folder_path then s
      else
        case os_listdir s folder_path of
          Inl e \<Rightarrow> s
        | Inr items \<Rightarrow>
            let shortcuts = filter is_shortcut_name items in
            if shortcuts \<noteq> [] then
              let archive_path = folder_path @ [''Archive'', timestamp];
                  shortcuts_path = archive_path @ [''Shortcuts''] in
              case os_makedirs shortcuts_path True s of
                (Some e, s1) \<Rightarrow> s1
              | (None, s1) \<Rightarrow>
                  let s2 = set_folder_color os_type shortcuts_path ''Shortcuts'' s1 in
                  move_shortcut_items folder_path shortcuts_path shortcuts s2
            else s)"

section \<open>Repair sweep\<close>

text \<open>\<open>move_to_category\<close>: the whole body is a \<open>try\<close> that logs and swallows.\<close>

definition move_to_category :: "categories \<Rightarrow> path \<Rightarrow> path \<Rightarrow> state \<Rightarrow> state" where
  "move_to_category cats file_path dated_folder s =
     (let file_name = basename file_path;
          ext = snd (splitext (lower file_name));
          category = category_of_move cats ext;
          target_dir = dated_folder @ [category];
          target_path = target_dir @ [file_name] in
      if \<not> os_path_exists s target_path then snd (shutil_move file_path target_path s)
      else s)"

text \<open>The decoration written inline in both repair passes: the sidecar is opened for
  writing, which can fail, and two attribute calls follow.\<close>

definition write_desktop_ini :: "path \<Rightarrow> state \<Rightarrow> error option \<times> state" where
  "write_desktop_ini category_path s =
     (let ini_path = category_path @ [''Desktop.ini''] in write_file ini_path s)"

text \<open>The loop \<open>for item in os.listdir(dated_path)\<close> of \<open>fix_onedrive_archives\<close>; an
  exception of \<open>shutil.move\<close> leaves the loop.\<close>

fun move_misplaced :: "categories \<Rightarrow> path \<Rightarrow> string list \<Rightarrow> state \<Rightarrow> error option \<times> state" where
  "move_misplaced cats dated_path [] s = (None, s)"
| "move_misplaced cats dated_path (item # rest) s =
     (if os_path_isfile s (dated_path @ [item]) then
        let ext = snd (splitext (lower item));
            target_category = get_category_for_extension cats ext in
        if target_category \<noteq> [] then
          let source = dated_path @ [item];
              target = dated_path @ [target_category, item] in
          if \<not> os_path_exists s target then
            case shutil_move source target s of
              (Some e, s1) \<Rightarrow> (Some e, s1)
            | (None, s1) \<Rightarrow> move_misplaced cats dated_path rest s1
          else move_misplaced cats dated_path rest s
        else move_misplaced cats dated_path rest s
      else move_misplaced cats dated_path rest s)"

text \<open>The loop \<open>for category in self.categories.keys()\<close> of \<open>fix_onedrive_archives\<close>;
  the loop over the misplaced files is nested in it.\<close>

fun fix_categories :: "categories \<Rightarrow> string list \<Rightarrow> path \<Rightarrow> state \<Rightarrow> error option \<times> state" where
  "fix_categories cats [] dated_path s = (None, s)"
| "fix_categories cats (category # rest) dated_path s =
     (let category_path = dated_path @ [category] in
      case os_makedirs category_path True s of
        (Some e, s1) \<Rightarrow> (Some e, s1)
      | (None, s1) \<Rightarrow>
          (case write_desktop_ini category_path s1 of
             (Some e, s2) \<Rightarrow> (Some e, s2)
           | (None, s2) \<Rightarrow>
               (case os_listdir s2 dated_path of
                  Inl e \<Rightarrow> (Some e, s2)
                | Inr items \<Rightarrow>
                    (case move_misplaced cats dated_path items s2 of
                       (Some e, s3) \<Rightarrow> (Some e, s3)
                     | (None, s3) \<Rightarrow> fix_categories cats rest dated_path s3))))"

text \<open>The loop \<open>for dated_folder in os.listdir(archive_path)\<close>.\<close>

fun fix_dated_folders :: "categories \<Rightarrow> path \<Rightarrow> string list \<Rightarrow> state \<Rightarrow> error option \<times> state" where
  "fix_dated_folders cats archive_path [] s = (None, s)"
| "fix_dated_folders cats archive_path (dated_folder # rest) s =
     (let dated_path = archive_path @ [dated_folder] in
      if os_path_isdir s dated_path \<and> CHR ''_'' \<in> set dated_folder then
        case fix_categories cats (map fst cats) dated_path s of
          (Some e, s1) \<Rightarrow> (Some e, s1)
        | (None, s1) \<Rightarrow> fix_dated_folders cats archive_path rest s1
      else fix_dated_folders cats archive_path rest s)"

text \<open>The loop \<open>for archive_path in onedrive_paths\<close>.\<close>

fun fix_archive_paths :: "categories \<Rightarrow> path list \<Rightarrow> state \<Rightarrow> error option \<times> state" where
  "fix_archive_paths cats [] s = (None, s)"
| "fix_archive_paths cats (archive_path # rest) s =
     (if os_path_exists s archive_path then
        case os_listdir s archive_path of
          Inl e \<Rightarrow> (Some e, s)
        | Inr dated_folders \<Rightarrow>
            (case fix_dated_folders cats archive_path dated_folders s of
               (Some e, s1) \<Rightarrow> (Some e, s1)
             | (None, s1) \<Rightarrow> fix_archive_paths cats rest s1)
      else fix_archive_paths cats rest s)"

text \<open>\<open>fix_onedrive_archives\<close>; \<open>home\<close> is \<open>os.path.expanduser('~')\<close>. The outer \<open>try\<close>
  logs the exception that ended the pass, if any.\<close>

definition fix_onedrive_archives :: "categories \<Rightarrow> path \<Rightarrow> state \<Rightarrow> state" where
  "fix_onedrive_archives cats home s =
     (let onedrive_paths =
            [home @ [''OneDrive'', ''Archive - Pre-2024'', ''Desktop'', ''Archive''],
             home @ [''OneDrive'', ''Archive - Pre-2024'', ''Downloads'', ''Archive''],
             home @ [''OneDrive - Business'', ''Archive - Pre-2024'', ''Desktop'', ''Archive''],
             home @ [''OneDrive - Business'', ''Archive - Pre-2024'', ''Downloads'', ''Archive'']]
      in snd (fix_archive_paths cats onedrive_paths s))"

text \<open>The loop \<open>for file in files\<close> of \<open>fix_all_archives\<close>, over the file names that
  \<open>os.walk\<close> listed for \<open>root\<close>.\<close>

fun move_walked_files :: "categories \<Rightarrow> path \<Rightarrow> string list \<Rightarrow> state \<Rightarrow> error option \<times> state" where
  "move_walked_files cats root [] s = (None, s)"
| "move_walked_files cats root (file # rest) s =
     (let file_path = root @ [file] in
      if os_path_isfile s file_path then
        let ext = snd (splitext (lower file));
            target_category = get_category_for_extension cats ext in
        if target_category \<noteq> [] then
          let target_path = root @ [target_category, file] in
          if \<not> os_path_exists s target_path then
            case shutil_move file_path target_path s of
              (Some e, s1) \<Rightarrow> (Some e, s1)
            | (None, s1) \<Rightarrow> move_walked_files cats root rest s1
          else move_walked_files cats root rest s
        else move_walked_files cats root rest s
      else move_walked_files cats root rest s)"

text \<open>The loop \<open>for category in self.categories.keys()\<close> of \<open>fix_all_archives\<close>.\<close>

fun fix_walked_categories ::
  "categories \<Rightarrow> string list \<Rightarrow> path \<Rightarrow> string list \<Rightarrow> state \<Rightarrow> error option \<times> state" where
  "fix_walked_categories cats [] root files s = (None, s)"
| "fix_walked_categories cats (category # rest) root files s =
     (let category_path = root @ [category] in
      case os_makedirs category_path True s of
        (Some e, s1) \<Rightarrow> (Some e, s1)
      | (None, s1) \<Rightarrow>
          (case write_desktop_ini category_path s1 of
             (Some e, s2) \<Rightarrow> (Some e, s2)
           | (None, s2) \<Rightarrow>
               (case move_walked_files cats root files s2 of
                  (Some e, s3) \<Rightarrow> (Some e, s3)
                | (None, s3) \<Rightarrow> fix_walked_categories cats rest root files s3)))"

text \<open>
  \<open>os.walk(archive_path)\<close>, top-down, with the loop body of \<open>fix_all_archives\<close> run at
  every directory it yields. A directory is listed when the walk reaches it, after the
  bodies of the directories before it have run; its sub-directories, as listed then,
  are walked next, in order. The first argument bounds the number of directories
  visited; \<open>None\<close> means the bound was too small.
\<close>

fun walk_archive ::
  "nat \<Rightarrow> categories \<Rightarrow> path list \<Rightarrow> state \<Rightarrow> (error option \<times> state) option" where
  "walk_archive 0 cats todo s = None"
| "walk_archive (Suc n) cats [] s = Some (None, s)"
| "walk_archive (Suc n) cats (root # todo) s =
     (case os_listdir s root of
        Inl e \<Rightarrow> walk_archive n cats todo s
      | Inr names \<Rightarrow>
          let dirs = filter (\<lambda>name. os_path_isdir s (root @ [name])) names;
              files = filter (\<lambda>name. \<not> os_path_isdir s (root @ [name])) names in
          case (if CHR ''_'' \<in> set (basename root)
                then fix_walked_categories cats (map fst cats) root files s
                else (None, s)) of
            (Some e, s1) \<Rightarrow> Some (Some e, s1)
          | (None, s1) \<Rightarrow> walk_archive n cats (map (\<lambda>d. root @ [d]) dirs @ todo) s1)"

text \<open>The loop \<open>for archive_path in archive_locations\<close>.\<close>

fun fix_locations ::
  "nat \<Rightarrow> categories \<Rightarrow> path list \<Rightarrow> state \<Rightarrow> (error option \<times> state) option" where
  "fix_locations n cats [] s = Some (None, s)"
| "fix_locations n cats (archive_path # rest) s =
     (if os_path_exists s archive_path then
        case walk_archive n cats [archive_path] s of
          None \<Rightarrow> None
        | Some (Some e, s1) \<Rightarrow> Some (Some e, s1)
        | Some (None, s1) \<Rightarrow> fix_locations n cats rest s1
      else fix_locations n cats rest s)"

text \<open>\<open>fix_all_archives\<close>; \<open>desktop_path\<close> and \<open>downloads_path\<close> are the attributes of
  the organizer, \<open>[]\<close> when not found.\<close>

definition fix_all_archives ::
  "nat \<Rightarrow> categories \<Rightarrow> path \<Rightarrow> path \<Rightarrow> path \<Rightarrow> state \<Rightarrow> state option" where
  "fix_all_archives n cats home desktop_path downloads_path s =
     (let onedrive_paths =
            [home @ [''OneDrive'', ''Archive - Pre-2024''],
             home @ [''OneDrive - Business'', ''Archive - Pre-2024'']];
          archive_locations =
            onedrive_paths
            @ (if desktop_path \<noteq> [] then [desktop_path @ [''Archive'']] else [])
            @ (if downloads_path \<noteq> [] then [downloads_path @ [''Archive'']] else [])
      in map_option snd (fix_locations n cats archive_locations s))"

section \<open>Events of a call\<close>

text \<open>The events that a call appended to the log, and the test for a \<open>shutil.move\<close>
  call that returned normally.\<close>

definition new_events :: "state \<Rightarrow> state \<Rightarrow> event list" where
  "new_events s s' = drop (length (log s)) (log s')"

fun is_moved :: "event \<Rightarrow> bool" where
  "is_moved (MoveCall src dst None) = True"
| "is_moved ev = False"

section \<open>Example states\<close>

text \<open>Small folders and archive trees on which the operations are run below.\<close>

definition no_stats :: stats where
  "no_stats = \<lparr>files_moved = 0, space_cleared = 0, errors = 0\<rparr>"

definition scenario_folder :: state where
  "scenario_folder =
     \<lparr>fs = [([''Desktop''], Dir), ([''Desktop'', ''report.pdf''], File 100),
            ([''Desktop'', ''photo.jpg''], File 200), ([''Desktop'', ''Archive''], Dir)],
      locks = [], unreadable = [], stats = no_stats, log = []\<rparr>"

definition locked_folder :: "nat \<Rightarrow> state" where
  "locked_folder n =
     \<lparr>fs = [([''Desktop''], Dir), ([''Desktop'', ''a.zip''], File 7)],
      locks = [([''Desktop'', ''a.zip''], n)], unreadable = [], stats = no_stats, log = []\<rparr>"

definition locked_and_free :: state where
  "locked_and_free =
     \<lparr>fs = [([''Desktop''], Dir), ([''Desktop'', ''a.zip''], File 7),
            ([''Desktop'', ''b.txt''], File 2), ([''Desktop'', ''Archive''], Dir),
            ([''Desktop'', ''Archive'', ''T''], Dir)],
      locks = [([''Desktop'', ''a.zip''], 3)], unreadable = [], stats = no_stats, log = []\<rparr>"

definition collision_folder :: state where
  "collision_folder =
     \<lparr>fs = [([''Desktop''], Dir), ([''Desktop'', ''a.zip''], File 7),
            ([''Desktop'', ''Archive''], Dir), ([''Desktop'', ''Archive'', ''T''], Dir),
            ([''Desktop'', ''Archive'', ''T'', ''a.zip''], File 5)],
      locks = [], unreadable = [], stats = no_stats, log = []\<rparr>"

definition system_only_folder :: state where
  "system_only_folder =
     \<lparr>fs = [([''Desktop''], Dir), ([''Desktop'', ''desktop.ini''], File 1),
            ([''Desktop'', ''thumbs.db''], File 4)],
      locks = [], unreadable = [], stats = no_stats, log = []\<rparr>"

definition archives_folder :: state where
  "archives_folder =
     \<lparr>fs = [([''Desktop''], Dir), ([''Desktop'', ''Archive''], Dir),
            ([''Desktop'', ''My Archived Photos''], Dir),
            ([''Desktop'', ''My Archived Photos'', ''p.jpg''], File 6),
            ([''Desktop'', ''notes.txt''], File 3)],
      locks = [], unreadable = [], stats = no_stats, log = []\<rparr>"

definition unreadable_folder :: state where
  "unreadable_folder =
     \<lparr>fs = [([''Desktop''], Dir), ([''Desktop'', ''old recycle bin''], Dir)],
      locks = [], unreadable = [[''Desktop'', ''old recycle bin'']], stats = no_stats, log = []\<rparr>"

definition zip_categories :: categories where
  "zip_categories = [(''ZIP_Files'', [''.zip''])]"

definition dated :: path where
  "dated = [''Desktop'', ''Archive'', ''Mar-14-2024_09-30AM'']"

definition stray_zip_tree :: state where
  "stray_zip_tree =
     \<lparr>fs = [([''Desktop''], Dir), ([''Desktop'', ''Archive''], Dir), (dated, Dir),
            (dated @ [''a.zip''], File 9)],
      locks = [], unreadable = [], stats = no_stats, log = []\<rparr>"

definition filed_zip_tree :: state where
  "filed_zip_tree =
     \<lparr>fs = [([''Desktop''], Dir), ([''Desktop'', ''Archive''], Dir), (dated, Dir),
            (dated @ [''ZIP_Files''], Dir), (dated @ [''ZIP_Files'', ''a.zip''], File 9)],
      locks = [], unreadable = [], stats = no_stats, log = []\<rparr>"

definition repair_collision_tree :: state where
  "repair_collision_tree =
     \<lparr>fs = [([''Desktop''], Dir), ([''Desktop'', ''Archive''], Dir), (dated, Dir),
            (dated @ [''ZIP_Files''], Dir), (dated @ [''ZIP_Files'', ''a.zip''], File 5),
            (dated @ [''a.zip''], File 7)],
      locks = [], unreadable = [], stats = no_stats, log = []\<rparr>"

definition shortcut_folder :: state where
  "shortcut_folder =
     \<lparr>fs = [([''Desktop''], Dir), ([''Desktop'', ''App.LNK''], File 1),
            ([''Desktop'', ''report.pdf''], File 100)],
      locks = [], unreadable = [], stats = no_stats, log = []\<rparr>"

section \<open>Properties of the classifier\<close>

lemma scan_categories_first:
  assumes "i < length cats" and "ext \<in> set (snd (cats ! i))"
    and "\<forall>j<i. ext \<notin> set (snd (cats ! j))"
  shows "scan_categories cats ext = fst (cats ! i)"
  using assms
proof (induction cats ext arbitrary: i rule: scan_categories.induct)
  case (1 ext)
  then show ?case by simp
next
  case (2 category extensions rest ext)
  show ?case
  proof (cases i)
    case 0
    with "2.prems" show ?thesis by simp
  next
    case (Suc k)
    from "2.prems"(3) Suc have notin: "ext \<notin> set extensions" by fastforce
    have later: "\<forall>j<k. ext \<notin> set (snd (rest ! j))"
    proof (intro allI impI)
      fix j assume "j < k"
      then have "Suc j < i" using Suc by simp
      with "2.prems"(3) show "ext \<notin> set (snd (rest ! j))" by fastforce
    qed
    from "2.prems" Suc have "k < length rest" "ext \<in> set (snd (rest ! k))" by simp_all
    with "2.IH" notin later have "scan_categories rest ext = fst (rest ! k)" by blast
    with notin Suc show ?thesis by simp
  qed
qed

lemma scan_categories_none:
  "\<forall>c\<in>set cats. ext \<notin> set (snd c) \<Longrightarrow> scan_categories cats ext = ''Others''"
  by (induction cats ext rule: scan_categories.induct) auto

lemma scan_categories_range:
  "scan_categories cats ext \<in> insert ''Others'' (fst ` set cats)"
  by (induction cats ext rule: scan_categories.induct) auto

lemma assign_category_scan:
  "assign_category cats ext ''Others'' = scan_categories cats ext"
  by (induction cats ext rule: scan_categories.induct) auto

text \<open>
  C5. Classification is a total function of the extension (the empty extension
  included) with a single result, which is a configured category name, \<open>Shortcuts\<close> or
  \<open>Others\<close>. An extension of the shortcut set gives \<open>Shortcuts\<close> whatever the configured
  categories contain; any other extension gives the first declared category whose
  extension list contains it, and \<open>Others\<close> when no category does. The classification
  written inline in \<open>move_to_category\<close> computes the same result.
\<close>

theorem classify_shortcuts_first_declared_others:
  "get_category_for_extension cats ext \<in> {''Shortcuts'', ''Others''} \<union> fst ` set cats
   \<and> (ext \<in> {''.lnk'', ''.url'', ''.desktop''} \<longrightarrow>
        get_category_for_extension cats ext = ''Shortcuts'')
   \<and> (ext \<notin> {''.lnk'', ''.url'', ''.desktop''} \<longrightarrow>
        (\<forall>i<length cats. ext \<in> set (snd (cats ! i)) \<longrightarrow>
           (\<forall>j<i. ext \<notin> set (snd (cats ! j))) \<longrightarrow>
           get_category_for_extension cats ext = fst (cats ! i)))
   \<and> (ext \<notin> {''.lnk'', ''.url'', ''.desktop''} \<longrightarrow>
        (\<forall>c\<in>set cats. ext \<notin> set (snd c)) \<longrightarrow>
        get_category_for_extension cats ext = ''Others'')
   \<and> category_of_move cats ext = get_category_for_extension cats ext"
proof (intro conjI)
  show "get_category_for_extension cats ext \<in> {''Shortcuts'', ''Others''} \<union> fst ` set cats"
    using scan_categories_range [of cats ext]
    by (auto simp: get_category_for_extension_def)
  show "ext \<in> {''.lnk'', ''.url'', ''.desktop''} \<longrightarrow>
        get_category_for_extension cats ext = ''Shortcuts''"
    by (auto simp: get_category_for_extension_def shortcut_exts_def)
  show "ext \<notin> {''.lnk'', ''.url'', ''.desktop''} \<longrightarrow>
        (\<forall>i<length cats. ext \<in> set (snd (cats ! i)) \<longrightarrow>
           (\<forall>j<i. ext \<notin> set (snd (cats ! j))) \<longrightarrow>
           get_category_for_extension cats ext = fst (cats ! i))"
    using scan_categories_first [of _ cats ext]
    by (auto simp: get_category_for_extension_def shortcut_exts_def)
  show "ext \<notin> {''.lnk'', ''.url'', ''.desktop''} \<longrightarrow>
        (\<forall>c\<in>set cats. ext \<notin> set (snd c)) \<longrightarrow>
        get_category_for_extension cats ext = ''Others''"
    using scan_categories_none [of cats ext]
    by (auto simp: get_category_for_extension_def shortcut_exts_def)
  show "category_of_move cats ext = get_category_for_extension cats ext"
    by (simp add: category_of_move_def get_category_for_extension_def assign_category_scan)
qed

theorem classify_shortcuts_first_declared_others_witness:
  "get_category_for_extension
     [(''Documents'', [''.pdf'', ''.lnk'']), (''Images'', [''.jpg'', ''.pdf''])] ''.lnk''
     = ''Shortcuts''
   \<and> get_category_for_extension
     [(''Documents'', [''.pdf'', ''.lnk'']), (''Images'', [''.jpg'', ''.pdf''])] ''.pdf''
     = ''Documents''
   \<and> get_category_for_extension
     [(''Documents'', [''.pdf'', ''.lnk'']), (''Images'', [''.jpg'', ''.pdf''])] ''.jpg''
     = ''Images''
   \<and> get_category_for_extension
     [(''Documents'', [''.pdf'', ''.lnk'']), (''Images'', [''.jpg'', ''.pdf''])] []
     = ''Others''"
proof (intro conjI)
  let ?cats = "[(''Documents'', [''.pdf'', ''.lnk'']), (''Images'', [''.jpg'', ''.pdf''])]"
  show "get_category_for_extension ?cats ''.lnk'' = ''Shortcuts''"
    using classify_shortcuts_first_declared_others [of ?cats "''.lnk''"] by simp
  have "get_category_for_extension ?cats ''.pdf'' = fst (?cats ! 0)"
    by (rule classify_shortcuts_first_declared_others [of ?cats "''.pdf''",
          THEN conjunct2, THEN conjunct2, THEN conjunct1, rule_format, of 0]) simp_all
  then show "get_category_for_extension ?cats ''.pdf'' = ''Documents''" by simp
  have "get_category_for_extension ?cats ''.jpg'' = fst (?cats ! 1)"
    by (rule classify_shortcuts_first_declared_others [of ?cats "''.jpg''",
          THEN conjunct2, THEN conjunct2, THEN conjunct1, rule_format, of 1]) simp_all
  then show "get_category_for_extension ?cats ''.jpg'' = ''Images''" by simp
  show "get_category_for_extension ?cats [] = ''Others''"
    using classify_shortcuts_first_declared_others [of ?cats "[]"] by simp
qed

section \<open>Frame and log lemmas\<close>

lemma move_result_frame:
  "move_result src dst s = (r, s') \<Longrightarrow>
     log s' = log s \<and> stats s' = stats s \<and> unreadable s' = unreadable s"
  by (auto simp: move_result_def Let_def split: if_splits option.splits)

lemma shutil_move_frame:
  assumes "shutil_move src dst s = (r, s')"
  shows "log s' = log s @ [MoveCall src dst r]" and "stats s' = stats s"
    and "unreadable s' = unreadable s"
proof -
  obtain s1 where m: "move_result src dst s = (r, s1)"
    and s': "s' = s1\<lparr>log := log s1 @ [MoveCall src dst r]\<rparr>"
    using assms by (auto simp: shutil_move_def split: prod.splits)
  from move_result_frame [OF m] s'
  show "log s' = log s @ [MoveCall src dst r]" and "stats s' = stats s"
    and "unreadable s' = unreadable s" by simp_all
qed

lemma retry_move_log:
  "retry_move n src dst s = (r, s') \<Longrightarrow>
     \<exists>evs. log s' = log s @ evs
       \<and> (\<forall>ev\<in>set evs. ev = Sleep 1 \<or> (\<exists>q. ev = MoveCall src dst q))
       \<and> (0 < n \<longrightarrow> (\<exists>q. MoveCall src dst q \<in> set evs))
       \<and> files_moved (stats s') = files_moved (stats s) + length (filter is_moved evs)
       \<and> errors (stats s') = errors (stats s)"
proof (induction n arbitrary: s r s')
  case 0
  then show ?case by simp
next
  case (Suc n)
  let ?s1 = "add_space_cleared (get_file_size s src) s"
  obtain q s2 where mv: "shutil_move src dst ?s1 = (q, s2)" by (cases "shutil_move src dst ?s1")
  note fr = shutil_move_frame [OF mv]
  have l1: "log ?s1 = log s" "files_moved (stats ?s1) = files_moved (stats s)"
    "errors (stats ?s1) = errors (stats s)"
    by (simp_all add: add_space_cleared_def)
  show ?case
  proof (cases q)
    case None
    with Suc.prems mv have "s' = incr_files_moved s2" by (simp add: Let_def)
    then have "log s' = log s @ [MoveCall src dst None]"
      "files_moved (stats s') = files_moved (stats s) + 1" "errors (stats s') = errors (stats s)"
      using fr l1 None by (simp_all add: incr_files_moved_def)
    then show ?thesis
      by (intro exI [of _ "[MoveCall src dst None]"]) simp
  next
    case (Some e)
    show ?thesis
    proof (cases "e = PermissionError")
      case False
      with Suc.prems mv Some have "s' = s2" by (cases e) (simp_all add: Let_def)
      then show ?thesis using fr l1 Some
        by (intro exI [of _ "[MoveCall src dst (Some e)]"]) simp
    next
      case True
      let ?s3 = "time_sleep 1 s2"
      have l3: "log ?s3 = log s @ [MoveCall src dst (Some PermissionError), Sleep 1]"
        "stats ?s3 = stats s2"
        using fr Some True l1 by (simp_all add: time_sleep_def)
      show ?thesis
      proof (cases "n = 0")
        case True
        with Suc.prems mv Some \<open>e = PermissionError\<close> have "s' = ?s3" by (simp add: Let_def)
        then show ?thesis using l3 fr l1
          by (intro exI [of _ "[MoveCall src dst (Some PermissionError), Sleep 1]"])
            simp
      next
        case False
        with Suc.prems mv Some \<open>e = PermissionError\<close>
        have "retry_move n src dst ?s3 = (r, s')" by (simp add: Let_def)
        from Suc.IH [OF this] obtain evs where
          evs: "log s' = log ?s3 @ evs"
          "\<forall>ev\<in>set evs. ev = Sleep 1 \<or> (\<exists>q. ev = MoveCall src dst q)"
          "files_moved (stats s') = files_moved (stats ?s3) + length (filter is_moved evs)"
          "errors (stats s') = errors (stats ?s3)" by blast
        show ?thesis
          using evs l3 fr l1
          by (intro exI [of _ "[MoveCall src dst (Some PermissionError), Sleep 1] @ evs"])
            auto
      qed
    qed
  qed
qed

lemma move_items_log:
  "\<exists>evs. log (move_items f d items s) = log s @ evs
     \<and> (\<forall>ev\<in>set evs. ev = Sleep 1 \<or> (\<exists>i\<in>set items. \<exists>q. ev = MoveCall (f @ [i]) (d @ [i]) q))
     \<and> (\<forall>i\<in>set items. \<exists>q. MoveCall (f @ [i]) (d @ [i]) q \<in> set evs)
     \<and> files_moved (stats (move_items f d items s))
         = files_moved (stats s) + length (filter is_moved evs)"
proof (induction items arbitrary: s)
  case Nil
  then show ?case by simp
next
  case (Cons item rest)
  obtain r s1 where rm: "retry_move 3 (f @ [item]) (d @ [item]) s = (r, s1)"
    by (cases "retry_move 3 (f @ [item]) (d @ [item]) s")
  from retry_move_log [OF rm] obtain evs1 where
    e1: "log s1 = log s @ evs1"
      "\<forall>ev\<in>set evs1. ev = Sleep 1 \<or> (\<exists>q. ev = MoveCall (f @ [item]) (d @ [item]) q)"
      "\<exists>q. MoveCall (f @ [item]) (d @ [item]) q \<in> set evs1"
      "files_moved (stats s1) = files_moved (stats s) + length (filter is_moved evs1)"
    by auto
  define s2 where "s2 = (case r of None \<Rightarrow> s1 | Some e \<Rightarrow> incr_errors s1)"
  have s2: "log s2 = log s1" "files_moved (stats s2) = files_moved (stats s1)"
    by (simp_all add: s2_def incr_errors_def split: option.splits)
  have step: "move_items f d (item # rest) s = move_items f d rest s2"
    using rm by (simp add: s2_def Let_def split: option.splits)
  from Cons.IH [of s2] obtain evs2 where
    e2: "log (move_items f d rest s2) = log s2 @ evs2"
      "\<forall>ev\<in>set evs2. ev = Sleep 1 \<or> (\<exists>i\<in>set rest. \<exists>q. ev = MoveCall (f @ [i]) (d @ [i]) q)"
      "\<forall>i\<in>set rest. \<exists>q. MoveCall (f @ [i]) (d @ [i]) q \<in> set evs2"
      "files_moved (stats (move_items f d rest s2))
         = files_moved (stats s2) + length (filter is_moved evs2)"
    by blast
  show ?case
  proof (intro exI [of _ "evs1 @ evs2"] conjI)
    show "log (move_items f d (item # rest) s) = log s @ evs1 @ evs2"
      using step e1(1) e2(1) s2(1) by simp
    show "\<forall>ev\<in>set (evs1 @ evs2). ev = Sleep 1 \<or>
        (\<exists>i\<in>set (item # rest). \<exists>q. ev = MoveCall (f @ [i]) (d @ [i]) q)"
      using e1(2) e2(2) by fastforce
    show "\<forall>i\<in>set (item # rest). \<exists>q. MoveCall (f @ [i]) (d @ [i]) q \<in> set (evs1 @ evs2)"
      using e1(3) e2(3) by fastforce
    show "files_moved (stats (move_items f d (item # rest) s))
         = files_moved (stats s) + length (filter is_moved (evs1 @ evs2))"
      using step e1(4) e2(4) s2(2) by simp
  qed
qed

lemma new_events_append: "log s' = log s @ evs \<Longrightarrow> new_events s s' = evs"
  by (simp add: new_events_def)

lemma mkdir_chain_frame:
  "mkdir_chain ps s = (r, s') \<Longrightarrow>
     stats s' = stats s \<and> unreadable s' = unreadable s \<and> locks s' = locks s
     \<and> (\<exists>created. set created \<subseteq> set ps \<and> log s' = log s @ map Mkdir created
           \<and> fs s' = fs s @ map (\<lambda>p. (p, Dir)) created)"
proof (induction ps arbitrary: s)
  case Nil
  then show ?case by (auto intro: exI [of _ "[]"])
next
  case (Cons p ps)
  show ?case
  proof (cases "lookup (fs s) p")
    case None
    let ?s1 = "s\<lparr>fs := fs s @ [(p, Dir)], log := log s @ [Mkdir p]\<rparr>"
    from Cons.prems None have "mkdir_chain ps ?s1 = (r, s')" by simp
    from Cons.IH [OF this] obtain created where
      c: "stats s' = stats s" "unreadable s' = unreadable s" "locks s' = locks s"
      "set created \<subseteq> set ps" "log s' = log ?s1 @ map Mkdir created"
      "fs s' = fs ?s1 @ map (\<lambda>p. (p, Dir)) created" by auto
    show ?thesis using c by (auto intro!: exI [of _ "p # created"])
  next
    case (Some n)
    show ?thesis
    proof (cases n)
      case (File k)
      with Cons.prems Some have "s' = s" by simp
      then show ?thesis by (auto intro: exI [of _ "[]"])
    next
      case Dir
      with Cons.prems Some have "mkdir_chain ps s = (r, s')" by simp
      from Cons.IH [OF this] show ?thesis by auto
    qed
  qed
qed

lemma os_makedirs_frame:
  assumes "os_makedirs p ok s = (r, s')"
  shows "stats s' = stats s \<and> unreadable s' = unreadable s \<and> locks s' = locks s
     \<and> (\<exists>created. set created \<subseteq> set (path_prefixes p) \<and> log s' = log s @ map Mkdir created
           \<and> fs s' = fs s @ map (\<lambda>p. (p, Dir)) created)"
proof (cases "\<not> ok \<and> lookup (fs s) p \<noteq> None")
  case True
  with assms have "s' = s" by (simp add: os_makedirs_def)
  then show ?thesis by (auto intro: exI [of _ "[]"])
next
  case False
  with assms have "mkdir_chain (path_prefixes p) s = (r, s')"
    by (auto simp: os_makedirs_def split: if_splits)
  from mkdir_chain_frame [OF this] show ?thesis .
qed

lemma path_prefixes_prefix:
  "q \<in> set (path_prefixes p) \<Longrightarrow> \<exists>r. p = q @ r"
  by (induction p arbitrary: q) auto

lemma lookup_append_created:
  "q \<notin> set created \<Longrightarrow> lookup (t @ map (\<lambda>p. (p, Dir)) created) q = lookup t q"
proof -
  assume "q \<notin> set created"
  then have "map_of (map (\<lambda>p. (p, Dir)) created) q = None"
    by (simp add: map_of_eq_None_iff image_iff)
  then show ?thesis by (simp add: lookup_def map_add_def split: option.splits)
qed

lemma children_append: "children (t @ u) d = children t d @ children u d"
  by (simp add: children_def)

lemma children_created:
  assumes "item \<in> set (children (map (\<lambda>p. (p, Dir)) created) d)"
  shows "d @ [item] \<in> set created"
proof -
  from assms obtain p where p: "p \<in> set created" "p \<noteq> []" "butlast p = d" "last p = item"
    by (auto simp: children_def)
  from p(2) have "butlast p @ [last p] = p" by simp
  with p show ?thesis by simp
qed

lemma children_append_created:
  "item \<in> set (children (t @ map (\<lambda>p. (p, Dir)) created) d) \<Longrightarrow>
     item \<in> set (children t d) \<or> d @ [item] \<in> set created"
  using children_created [of item created d] by (auto simp: children_append)

lemma os_path_isdir_cong:
  "unreadable s1 = unreadable s \<Longrightarrow> lookup (fs s1) p = lookup (fs s) p \<Longrightarrow>
   os_path_isdir s1 p = os_path_isdir s p"
  by (simp add: os_path_isdir_def os_stat_def)

lemma is_system_file_cong:
  "unreadable s1 = unreadable s \<Longrightarrow> lookup (fs s1) p = lookup (fs s) p \<Longrightarrow>
   is_system_file s1 p = is_system_file s p"
  using os_path_isdir_cong [of s1 s p]
  by (simp add: is_system_file_def is_system_file_body_def Let_def)

lemma to_move_cong:
  "unreadable s1 = unreadable s \<Longrightarrow>
   lookup (fs s1) (folder_path @ [item]) = lookup (fs s) (folder_path @ [item]) \<Longrightarrow>
   to_move s1 folder_path item = to_move s folder_path item"
  using is_system_file_cong [of s1 s "folder_path @ [item]"]
  by (simp add: to_move_def Let_def)

section \<open>The shape of a forward sweep\<close>

lemma archive_not_entry:
  assumes "folder_path @ [i] \<in> set (path_prefixes (folder_path @ [''Archive'']))"
  shows "i = ''Archive''"
proof -
  from path_prefixes_prefix [OF assms] obtain r where
    "folder_path @ [''Archive''] = (folder_path @ [i]) @ r" ..
  then show ?thesis by simp
qed

lemma organize_folder_shape:
  "\<exists>pre items s2.
     organize_folder ts folder_path s
       = move_items folder_path (folder_path @ [''Archive'', ts]) items s2
     \<and> log s2 = log s @ map Mkdir pre \<and> stats s2 = stats s
     \<and> (\<forall>i\<in>set items. i \<in> set (children (fs s) folder_path) \<and> to_move s folder_path i)
     \<and> ((\<forall>i\<in>set (children (fs s) folder_path). \<not> to_move s folder_path i) \<longrightarrow>
          set pre \<subseteq> set (path_prefixes (folder_path @ [''Archive'']))
          \<and> fs s2 = fs s @ map (\<lambda>p. (p, Dir)) pre)"
proof (cases "folder_path = [] \<or> \<not> os_path_exists s folder_path")
  case True
  then have "organize_folder ts folder_path s
      = move_items folder_path (folder_path @ [''Archive'', ts]) [] s"
    by (auto simp: organize_folder_def)
  then show ?thesis by (intro exI [of _ "[]"] exI [of _ s]) simp
next
  case False
  define A where "A = folder_path @ [''Archive'']"
  define step1 where
    "step1 = (if \<not> os_path_exists s A then os_makedirs A False s else (None, s))"
  define rest where "rest = (\<lambda>s1.
     case os_listdir s1 folder_path of
       Inl e \<Rightarrow> s1
     | Inr all_items \<Rightarrow>
         if filter (to_move s1 folder_path) all_items \<noteq> [] then
           case os_makedirs (A @ [ts]) True s1 of
             (Some e, s2) \<Rightarrow> s2
           | (None, s2) \<Rightarrow>
               move_items folder_path (A @ [ts]) (filter (to_move s1 folder_path) all_items) s2
         else s1)"
  have eq: "organize_folder ts folder_path s
      = (case step1 of (Some e, s1) \<Rightarrow> s1 | (None, s1) \<Rightarrow> rest s1)"
    unfolding organize_folder_def step1_def rest_def A_def Let_def
    using False by simp
  obtain r1 s1 where mk: "step1 = (r1, s1)" by (cases step1)
  have fr1: "stats s1 = stats s \<and> unreadable s1 = unreadable s \<and> locks s1 = locks s
     \<and> (\<exists>created. set created \<subseteq> set (path_prefixes A) \<and> log s1 = log s @ map Mkdir created
           \<and> fs s1 = fs s @ map (\<lambda>p. (p, Dir)) created)"
  proof (cases "os_path_exists s A")
    case True
    with mk have "s1 = s" by (simp add: step1_def)
    then show ?thesis by (auto intro: exI [of _ "[]"])
  next
    case False
    with mk have "os_makedirs A False s = (r1, s1)" by (simp add: step1_def)
    from os_makedirs_frame [OF this] show ?thesis .
  qed
  then obtain c1 where c1: "set c1 \<subseteq> set (path_prefixes A)" "log s1 = log s @ map Mkdir c1"
    "fs s1 = fs s @ map (\<lambda>p. (p, Dir)) c1" and st1: "stats s1 = stats s"
    and un1: "unreadable s1 = unreadable s" by blast
  have trivial: "organize_folder ts folder_path s = s1 \<Longrightarrow> ?thesis"
  proof -
    assume "organize_folder ts folder_path s = s1"
    then have "organize_folder ts folder_path s
      = move_items folder_path (folder_path @ [''Archive'', ts]) [] s1" by simp
    then show ?thesis using c1 st1
      by (intro exI [of _ c1] exI [of _ "[]"] exI [of _ s1]) (simp add: A_def)
  qed
  show ?thesis
  proof (cases r1)
    case (Some e)
    with eq mk have "organize_folder ts folder_path s = s1" by simp
    then show ?thesis by (rule trivial)
  next
    case None
    show ?thesis
    proof (cases "os_listdir s1 folder_path")
      case (Inl e)
      with eq mk None have "organize_folder ts folder_path s = s1"
        by (simp add: rest_def)
      then show ?thesis by (rule trivial)
    next
      case (Inr all_items)
      then have all_items: "all_items = children (fs s1) folder_path"
        by (auto simp: os_listdir_def split: option.splits node.splits)
      define ftm where "ftm = filter (to_move s1 folder_path) all_items"
      show ?thesis
      proof (cases "ftm = []")
        case True
        with eq mk None Inr have "organize_folder ts folder_path s = s1"
          by (simp add: rest_def ftm_def)
        then show ?thesis by (rule trivial)
      next
        case nonempty: False
        obtain r2 s2 where mk2: "os_makedirs (A @ [ts]) True s1 = (r2, s2)"
          by (cases "os_makedirs (A @ [ts]) True s1")
        from os_makedirs_frame [OF mk2] obtain c2 where
          c2: "log s2 = log s1 @ map Mkdir c2" and st2: "stats s2 = stats s1" by blast
        have lg: "log s2 = log s @ map Mkdir (c1 @ c2)" using c1(2) c2 by simp
        have items: "\<forall>i\<in>set ftm. i \<in> set (children (fs s) folder_path) \<and> to_move s folder_path i"
        proof
          fix i assume "i \<in> set ftm"
          then have tm: "to_move s1 folder_path i" and ch: "i \<in> set (children (fs s1) folder_path)"
            by (simp_all add: ftm_def all_items)
          from tm have ne: "i \<noteq> ''Archive''" by (simp add: to_move_def Let_def)
          have notc: "folder_path @ [i] \<notin> set c1"
          proof
            assume "folder_path @ [i] \<in> set c1"
            with c1(1) have "folder_path @ [i] \<in> set (path_prefixes (folder_path @ [''Archive'']))"
              by (auto simp: A_def)
            from archive_not_entry [OF this] ne show False by simp
          qed
          from ch c1(3) children_append_created [of i "fs s" c1 folder_path] notc
          have "i \<in> set (children (fs s) folder_path)" by auto
          moreover have "lookup (fs s1) (folder_path @ [i]) = lookup (fs s) (folder_path @ [i])"
            using lookup_append_created [OF notc] c1(3) by simp
          from to_move_cong [OF un1 this] tm have "to_move s folder_path i" by simp
          ultimately show "i \<in> set (children (fs s) folder_path) \<and> to_move s folder_path i" ..
        qed
        from nonempty obtain i0 where "i0 \<in> set ftm" by (cases ftm) auto
        with items have some_item:
          "\<exists>i\<in>set (children (fs s) folder_path). to_move s folder_path i" by blast
        show ?thesis
        proof (cases r2)
          case (Some e)
          with eq mk None Inr nonempty mk2 have "organize_folder ts folder_path s
              = move_items folder_path (folder_path @ [''Archive'', ts]) [] s2"
            by (simp add: rest_def ftm_def)
          then show ?thesis using lg st1 st2 some_item
            by (intro exI [of _ "c1 @ c2"] exI [of _ "[]"] exI [of _ s2]) auto
        next
          case None2: None
          with eq mk None Inr nonempty mk2 have "organize_folder ts folder_path s
              = move_items folder_path (folder_path @ [''Archive'', ts]) ftm s2"
            by (simp add: rest_def ftm_def A_def)
          then show ?thesis using lg st1 st2 items some_item
            by (intro exI [of _ "c1 @ c2"] exI [of _ ftm] exI [of _ s2]) auto
        qed
      qed
    qed
  qed
qed

lemma filter_is_moved_mkdir: "filter is_moved (map Mkdir pre) = []"
  by (induction pre) auto

lemma organize_folder_events:
  "\<exists>pre items evs.
     new_events s (organize_folder ts folder_path s) = map Mkdir pre @ evs
     \<and> (\<forall>ev\<in>set evs. ev = Sleep 1 \<or>
           (\<exists>i\<in>set items. \<exists>q. ev = MoveCall (folder_path @ [i])
                                   (folder_path @ [''Archive'', ts, i]) q))
     \<and> (\<forall>i\<in>set items. i \<in> set (children (fs s) folder_path) \<and> to_move s folder_path i)
     \<and> files_moved (stats (organize_folder ts folder_path s))
         = files_moved (stats s) + length (filter is_moved evs)"
proof -
  from organize_folder_shape [of ts folder_path s] obtain pre items s2 where
    sh: "organize_folder ts folder_path s
           = move_items folder_path (folder_path @ [''Archive'', ts]) items s2"
      "log s2 = log s @ map Mkdir pre" "stats s2 = stats s"
      "\<forall>i\<in>set items. i \<in> set (children (fs s) folder_path) \<and> to_move s folder_path i"
    by blast
  from move_items_log [of folder_path "folder_path @ [''Archive'', ts]" items s2]
  obtain evs where
    ev: "log (move_items folder_path (folder_path @ [''Archive'', ts]) items s2) = log s2 @ evs"
      "\<forall>ev\<in>set evs. ev = Sleep 1 \<or>
         (\<exists>i\<in>set items. \<exists>q. ev = MoveCall (folder_path @ [i])
                                 ((folder_path @ [''Archive'', ts]) @ [i]) q)"
      "files_moved (stats (move_items folder_path (folder_path @ [''Archive'', ts]) items s2))
         = files_moved (stats s2) + length (filter is_moved evs)"
    by blast
  have "log (organize_folder ts folder_path s) = log s @ (map Mkdir pre @ evs)"
    using sh(1,2) ev(1) by simp
  then have ne: "new_events s (organize_folder ts folder_path s) = map Mkdir pre @ evs"
    by (rule new_events_append)
  show ?thesis
    using ne ev(2,3) sh by (intro exI [of _ pre] exI [of _ items] exI [of _ evs]) simp
qed

lemma write_file_frame:
  "write_file p s = (r, s') \<Longrightarrow>
     stats s' = stats s \<and> (log s' = log s \<or> log s' = log s @ [WriteFile p])"
  by (auto simp: write_file_def split: option.splits node.splits if_splits)

lemma move_shortcut_items_log:
  "\<exists>evs. log (move_shortcut_items f d items s) = log s @ evs
     \<and> (\<forall>ev\<in>set evs. \<exists>i\<in>set items. \<exists>q. ev = MoveCall (f @ [i]) (d @ [i]) q)
     \<and> stats (move_shortcut_items f d items s) = stats s"
proof (induction items arbitrary: s)
  case Nil
  then show ?case by simp
next
  case (Cons item rest)
  obtain q s1 where mv: "shutil_move (f @ [item]) (d @ [item]) s = (q, s1)"
    by (cases "shutil_move (f @ [item]) (d @ [item]) s")
  note fr = shutil_move_frame [OF mv]
  from Cons.IH [of s1] obtain evs where
    e: "log (move_shortcut_items f d rest s1) = log s1 @ evs"
      "\<forall>ev\<in>set evs. \<exists>i\<in>set rest. \<exists>q. ev = MoveCall (f @ [i]) (d @ [i]) q"
      "stats (move_shortcut_items f d rest s1) = stats s1" by blast
  show ?case
    using mv fr e
    by (intro exI [of _ "MoveCall (f @ [item]) (d @ [item]) q # evs"]) (auto simp: Let_def)
qed

lemma organize_folder_shortcuts_events:
  "stats (organize_folder_shortcuts os_type ts folder_path s) = stats s
   \<and> (\<forall>src dst r. MoveCall src dst r
          \<in> set (new_events s (organize_folder_shortcuts os_type ts folder_path s)) \<longrightarrow>
        (\<exists>item\<in>set (children (fs s) folder_path). is_shortcut_name item
           \<and> src = folder_path @ [item]
           \<and> dst = folder_path @ [''Archive'', ts, ''Shortcuts'', item]))"
proof -
  let ?res = "organize_folder_shortcuts os_type ts folder_path s"
  let ?P = "stats ?res = stats s
   \<and> (\<forall>src dst r. MoveCall src dst r \<in> set (new_events s ?res) \<longrightarrow>
        (\<exists>item\<in>set (children (fs s) folder_path). is_shortcut_name item
           \<and> src = folder_path @ [item]
           \<and> dst = folder_path @ [''Archive'', ts, ''Shortcuts'', item]))"
  have same: "?res = s \<Longrightarrow> ?P" by (simp add: new_events_def)
  show ?P
  proof (cases "folder_path = [] \<or> \<not> os_path_exists s folder_path")
    case True
    then have "?res = s" by (auto simp: organize_folder_shortcuts_def)
    then show ?thesis by (rule same)
  next
    case False
    show ?thesis
    proof (cases "os_listdir s folder_path")
      case (Inl e)
      with False have "?res = s" by (simp add: organize_folder_shortcuts_def)
      then show ?thesis by (rule same)
    next
      case (Inr items)
      then have items: "items = children (fs s) folder_path"
        by (auto simp: os_listdir_def split: option.splits node.splits)
      define sc where "sc = filter is_shortcut_name items"
      define sp where "sp = folder_path @ [''Archive'', ts, ''Shortcuts'']"
      show ?thesis
      proof (cases "sc = []")
        case True
        with False Inr have "?res = s" by (simp add: organize_folder_shortcuts_def sc_def Let_def)
        then show ?thesis by (rule same)
      next
        case nonempty: False
        obtain r1 s1 where mk: "os_makedirs sp True s = (r1, s1)"
          by (cases "os_makedirs sp True s")
        from os_makedirs_frame [OF mk] obtain c1 where
          c1: "log s1 = log s @ map Mkdir c1" "stats s1 = stats s" by blast
        show ?thesis
        proof (cases r1)
          case (Some e)
          with False Inr nonempty mk have "?res = s1"
            by (simp add: organize_folder_shortcuts_def sc_def sp_def Let_def)
          moreover have "new_events s s1 = map Mkdir c1" using c1(1) by (rule new_events_append)
          ultimately show ?thesis using c1(2) by auto
        next
          case None
          define s2 where "s2 = set_folder_color os_type sp ''Shortcuts'' s1"
          have "\<exists>w. log s2 = log s1 @ w \<and> (\<forall>ev\<in>set w. \<exists>p. ev = WriteFile p)"
          proof (cases "os_type \<noteq> ''Windows''")
            case True
            then have "s2 = s1" by (simp add: s2_def set_folder_color_def)
            then show ?thesis by (intro exI [of _ "[]"]) simp
          next
            case False
            obtain rw sw where w: "write_file (sp @ [''Desktop.ini'']) s1 = (rw, sw)"
              by (cases "write_file (sp @ [''Desktop.ini'']) s1")
            with False have "s2 = sw" by (simp add: s2_def set_folder_color_def Let_def)
            with write_file_frame [OF w] show ?thesis
              by (auto intro: exI [of _ "[]"] exI [of _ "[WriteFile (sp @ [''Desktop.ini''])]"])
          qed
          then obtain w where w: "log s2 = log s1 @ w" "\<forall>ev\<in>set w. \<exists>p. ev = WriteFile p"
            by blast
          have st2: "stats s2 = stats s1"
          proof (cases "os_type \<noteq> ''Windows''")
            case True
            then show ?thesis by (simp add: s2_def set_folder_color_def)
          next
            case False
            obtain rw sw where w: "write_file (sp @ [''Desktop.ini'']) s1 = (rw, sw)"
              by (cases "write_file (sp @ [''Desktop.ini'']) s1")
            with False have "s2 = sw" by (simp add: s2_def set_folder_color_def Let_def)
            with write_file_frame [OF w] show ?thesis by simp
          qed
          from False Inr nonempty mk None have res: "?res = move_shortcut_items folder_path sp sc s2"
            by (simp add: organize_folder_shortcuts_def sc_def sp_def s2_def Let_def)
          from move_shortcut_items_log [of folder_path sp sc s2] obtain evs where
            e: "log (move_shortcut_items folder_path sp sc s2) = log s2 @ evs"
              "\<forall>ev\<in>set evs. \<exists>i\<in>set sc. \<exists>q. ev = MoveCall (folder_path @ [i]) (sp @ [i]) q"
              "stats (move_shortcut_items folder_path sp sc s2) = stats s2" by blast
          have "log ?res = log s @ (map Mkdir c1 @ w @ evs)"
            using res e(1) w(1) c1(1) by simp
          then have ne: "new_events s ?res = map Mkdir c1 @ w @ evs" by (rule new_events_append)
          have "\<forall>src dst r. MoveCall src dst r \<in> set (new_events s ?res) \<longrightarrow>
              (\<exists>item\<in>set (children (fs s) folder_path). is_shortcut_name item
                 \<and> src = folder_path @ [item]
                 \<and> dst = folder_path @ [''Archive'', ts, ''Shortcuts'', item])"
          proof (intro allI impI)
            fix src dst r
            assume "MoveCall src dst r \<in> set (new_events s ?res)"
            with ne w(2) have "MoveCall src dst r \<in> set evs" by auto
            with e(2) obtain i where "i \<in> set sc" "src = folder_path @ [i]" "dst = sp @ [i]"
              by fastforce
            then show "\<exists>item\<in>set (children (fs s) folder_path). is_shortcut_name item
                 \<and> src = folder_path @ [item]
                 \<and> dst = folder_path @ [''Archive'', ts, ''Shortcuts'', item]"
              by (auto simp: sc_def sp_def items)
          qed
          moreover have "stats ?res = stats s" using res e(3) st2 c1(2) by simp
          ultimately show ?thesis by blast
        qed
      qed
    qed
  qed
qed

section \<open>Forward sweep: where an entry goes\<close>

text \<open>
  C4 (as amended). Every \<open>shutil.move\<close> call of the forward sweep of the old organizer
  has as source an entry of the source folder and as destination
  \<open><source folder>/Archive/<timestamp>/<original file name>\<close>: there is no category
  level. \<open>files_moved\<close> grows by the number of calls that returned normally. The
  \<open>organize_folder\<close> of \<open>File_Organizer.py\<close> moves only entries whose lower-cased
  name ends in \<open>.lnk\<close>, \<open>.url\<close> or \<open>.desktop\<close>, to
  \<open><source folder>/Archive/<timestamp>/Shortcuts/<original file name>\<close>, and leaves
  the statistics as they were.
\<close>

theorem forward_sweep_target_path:
  "(MoveCall src dst r \<in> set (new_events s (organize_folder timestamp folder_path s)) \<longrightarrow>
      (\<exists>item\<in>set (children (fs s) folder_path).
          src = folder_path @ [item] \<and> dst = folder_path @ [''Archive'', timestamp, item]))
   \<and> files_moved (stats (organize_folder timestamp folder_path s))
       = files_moved (stats s)
         + length (filter is_moved (new_events s (organize_folder timestamp folder_path s)))
   \<and> (MoveCall src dst r
         \<in> set (new_events s (organize_folder_shortcuts os_type timestamp folder_path s)) \<longrightarrow>
      (\<exists>item\<in>set (children (fs s) folder_path). is_shortcut_name item
          \<and> src = folder_path @ [item]
          \<and> dst = folder_path @ [''Archive'', timestamp, ''Shortcuts'', item]))
   \<and> stats (organize_folder_shortcuts os_type timestamp folder_path s) = stats s"
proof -
  from organize_folder_events [of s timestamp folder_path] obtain pre items evs where
    e: "new_events s (organize_folder timestamp folder_path s) = map Mkdir pre @ evs"
      "\<forall>ev\<in>set evs. ev = Sleep 1 \<or>
           (\<exists>i\<in>set items. \<exists>q. ev = MoveCall (folder_path @ [i])
                                   (folder_path @ [''Archive'', timestamp, i]) q)"
      "\<forall>i\<in>set items. i \<in> set (children (fs s) folder_path) \<and> to_move s folder_path i"
      "files_moved (stats (organize_folder timestamp folder_path s))
         = files_moved (stats s) + length (filter is_moved evs)"
    by blast
  have "MoveCall src dst r \<in> set (new_events s (organize_folder timestamp folder_path s)) \<longrightarrow>
      (\<exists>item\<in>set (children (fs s) folder_path).
          src = folder_path @ [item] \<and> dst = folder_path @ [''Archive'', timestamp, item])"
  proof
    assume "MoveCall src dst r \<in> set (new_events s (organize_folder timestamp folder_path s))"
    with e(1) have "MoveCall src dst r \<in> set evs" by auto
    with e(2) obtain i where "i \<in> set items" "src = folder_path @ [i]"
      "dst = folder_path @ [''Archive'', timestamp, i]" by fastforce
    with e(3) show "\<exists>item\<in>set (children (fs s) folder_path).
          src = folder_path @ [item] \<and> dst = folder_path @ [''Archive'', timestamp, item]"
      by blast
  qed
  moreover have "files_moved (stats (organize_folder timestamp folder_path s))
       = files_moved (stats s)
         + length (filter is_moved (new_events s (organize_folder timestamp folder_path s)))"
    using e(1,4) by (simp add: filter_is_moved_mkdir)
  moreover have "MoveCall src dst r
         \<in> set (new_events s (organize_folder_shortcuts os_type timestamp folder_path s)) \<longrightarrow>
      (\<exists>item\<in>set (children (fs s) folder_path). is_shortcut_name item
          \<and> src = folder_path @ [item]
          \<and> dst = folder_path @ [''Archive'', timestamp, ''Shortcuts'', item])"
    using organize_folder_shortcuts_events [of os_type timestamp folder_path s] by blast
  moreover have "stats (organize_folder_shortcuts os_type timestamp folder_path s) = stats s"
    using organize_folder_shortcuts_events [of os_type timestamp folder_path s] by blast
  ultimately show ?thesis by blast
qed

text \<open>The sweep of the folder of Scenario 1, and a folder holding a shortcut.\<close>

theorem forward_sweep_target_path_witness:
  "MoveCall [''Desktop'', ''report.pdf''] [''Desktop'', ''Archive'', ''T'', ''report.pdf''] None
     \<in> set (new_events scenario_folder (organize_folder ''T'' [''Desktop''] scenario_folder))
   \<and> (\<exists>item\<in>set (children (fs scenario_folder) [''Desktop'']).
         [''Desktop'', ''report.pdf''] = [''Desktop''] @ [item]
         \<and> [''Desktop'', ''Archive'', ''T'', ''report.pdf'']
             = [''Desktop''] @ [''Archive'', ''T'', item])
   \<and> files_moved (stats (organize_folder ''T'' [''Desktop''] scenario_folder)) = 2
   \<and> MoveCall [''Desktop'', ''App.LNK'']
        [''Desktop'', ''Archive'', ''T'', ''Shortcuts'', ''App.LNK''] None
     \<in> set (new_events shortcut_folder
               (organize_folder_shortcuts ''Windows'' ''T'' [''Desktop''] shortcut_folder))
   \<and> (\<exists>item\<in>set (children (fs shortcut_folder) [''Desktop'']). is_shortcut_name item
         \<and> [''Desktop'', ''App.LNK''] = [''Desktop''] @ [item]
         \<and> [''Desktop'', ''Archive'', ''T'', ''Shortcuts'', ''App.LNK'']
             = [''Desktop''] @ [''Archive'', ''T'', ''Shortcuts'', item])"
proof -
  have h: "MoveCall [''Desktop'', ''report.pdf'']
             [''Desktop'', ''Archive'', ''T'', ''report.pdf''] None
     \<in> set (new_events scenario_folder (organize_folder ''T'' [''Desktop''] scenario_folder))"
    by code_simp
  have n: "files_moved (stats scenario_folder)
      + length (filter is_moved
          (new_events scenario_folder (organize_folder ''T'' [''Desktop''] scenario_folder))) = 2"
    by code_simp
  note t = forward_sweep_target_path [of "[''Desktop'', ''report.pdf'']"
      "[''Desktop'', ''Archive'', ''T'', ''report.pdf'']" None scenario_folder "''T''"
      "[''Desktop'']"]
  have h2: "MoveCall [''Desktop'', ''App.LNK'']
        [''Desktop'', ''Archive'', ''T'', ''Shortcuts'', ''App.LNK''] None
     \<in> set (new_events shortcut_folder
               (organize_folder_shortcuts ''Windows'' ''T'' [''Desktop''] shortcut_folder))"
    by code_simp
  note t2 = forward_sweep_target_path [of "[''Desktop'', ''App.LNK'']"
      "[''Desktop'', ''Archive'', ''T'', ''Shortcuts'', ''App.LNK'']" None shortcut_folder "''T''"
      "[''Desktop'']" "''Windows''"]
  from t2 h2 have c2: "\<exists>item\<in>set (children (fs shortcut_folder) [''Desktop'']).
         is_shortcut_name item
         \<and> [''Desktop'', ''App.LNK''] = [''Desktop''] @ [item]
         \<and> [''Desktop'', ''Archive'', ''T'', ''Shortcuts'', ''App.LNK'']
             = [''Desktop''] @ [''Archive'', ''T'', ''Shortcuts'', item]"
    by blast
  from t h n have "(\<exists>item\<in>set (children (fs scenario_folder) [''Desktop'']).
         [''Desktop'', ''report.pdf''] = [''Desktop''] @ [item]
         \<and> [''Desktop'', ''Archive'', ''T'', ''report.pdf'']
             = [''Desktop''] @ [''Archive'', ''T'', item])
     \<and> files_moved (stats (organize_folder ''T'' [''Desktop''] scenario_folder)) = 2"
    by simp
  with h h2 c2 show ?thesis by blast
qed

text \<open>
  The claim as stated fails on Scenario 1: \<open>.pdf\<close> classifies as \<open>Documents\<close>, yet
  \<open>report.pdf\<close> is moved to \<open>Archive/T/report.pdf\<close> and nothing arrives at
  \<open>Archive/T/Documents/report.pdf\<close>; the \<open>organize_folder\<close> of \<open>File_Organizer.py\<close>
  moves neither file.
\<close>

theorem forward_sweep_has_no_category_level:
  "get_category_for_extension [(''Documents'', [''.pdf'']), (''Images'', [''.jpg''])] ''.pdf''
     = ''Documents''
   \<and> new_events scenario_folder (organize_folder ''T'' [''Desktop''] scenario_folder)
     = [Mkdir [''Desktop'', ''Archive'', ''T''],
        MoveCall [''Desktop'', ''report.pdf''] [''Desktop'', ''Archive'', ''T'', ''report.pdf''] None,
        MoveCall [''Desktop'', ''photo.jpg''] [''Desktop'', ''Archive'', ''T'', ''photo.jpg''] None]
   \<and> lookup (fs (organize_folder ''T'' [''Desktop''] scenario_folder))
        [''Desktop'', ''Archive'', ''T'', ''Documents'', ''report.pdf''] = None
   \<and> lookup (fs (organize_folder ''T'' [''Desktop''] scenario_folder))
        [''Desktop'', ''Archive'', ''T'', ''report.pdf''] = Some (File 100)
   \<and> stats (organize_folder_shortcuts ''Windows'' ''T'' [''Desktop''] scenario_folder) = no_stats
   \<and> fs (organize_folder_shortcuts ''Windows'' ''T'' [''Desktop''] scenario_folder)
        = fs scenario_folder"
  by code_simp

section \<open>Forward sweep: archive exclusion\<close>

text \<open>
  C7. In a forward sweep of any source folder, the entry named \<open>Archive\<close> and every
  entry whose lower-cased name contains \<open>archive\<close> fails the test for \<open>files_to_move\<close>
  in every state, and no \<open>shutil.move\<close> call of the sweep has it as source.
\<close>

theorem archive_named_entries_never_moved:
  assumes "item = ''Archive'' \<or> str_contains ''archive'' (lower item)"
  shows "\<not> to_move s' folder_path item
     \<and> (\<forall>dst r. MoveCall (folder_path @ [item]) dst r
                  \<notin> set (new_events s (organize_folder timestamp folder_path s)))"
proof
  show no: "\<not> to_move s' folder_path item" using assms by (auto simp: to_move_def Let_def)
  from organize_folder_events [of s timestamp folder_path] obtain pre items evs where
    e: "new_events s (organize_folder timestamp folder_path s) = map Mkdir pre @ evs"
      "\<forall>ev\<in>set evs. ev = Sleep 1 \<or>
           (\<exists>i\<in>set items. \<exists>q. ev = MoveCall (folder_path @ [i])
                                   (folder_path @ [''Archive'', timestamp, i]) q)"
      "\<forall>i\<in>set items. i \<in> set (children (fs s) folder_path) \<and> to_move s folder_path i"
    by blast
  show "\<forall>dst r. MoveCall (folder_path @ [item]) dst r
                  \<notin> set (new_events s (organize_folder timestamp folder_path s))"
  proof (intro allI notI)
    fix dst r
    assume "MoveCall (folder_path @ [item]) dst r
              \<in> set (new_events s (organize_folder timestamp folder_path s))"
    with e(1) have "MoveCall (folder_path @ [item]) dst r \<in> set evs" by auto
    with e(2) obtain i where "i \<in> set items" "folder_path @ [item] = folder_path @ [i]"
      by fastforce
    with e(3) have "to_move s folder_path item" by simp
    moreover have "\<not> to_move s folder_path item"
      using assms by (auto simp: to_move_def Let_def)
    ultimately show False by simp
  qed
qed

text \<open>A folder holding \<open>Archive\<close> and \<open>My Archived Photos\<close>.\<close>

theorem archive_named_entries_never_moved_witness:
  "(''My Archived Photos'' = ''Archive''
      \<or> str_contains ''archive'' (lower ''My Archived Photos''))
   \<and> ''My Archived Photos'' \<in> set (children (fs archives_folder) [''Desktop''])
   \<and> \<not> to_move archives_folder [''Desktop''] ''My Archived Photos''
   \<and> MoveCall [''Desktop'', ''My Archived Photos'']
        [''Desktop'', ''Archive'', ''T'', ''My Archived Photos''] None
        \<notin> set (new_events archives_folder (organize_folder ''T'' [''Desktop''] archives_folder))"
proof -
  have h: "''My Archived Photos'' = ''Archive''
      \<or> str_contains ''archive'' (lower ''My Archived Photos'')"
    by code_simp
  have c: "''My Archived Photos'' \<in> set (children (fs archives_folder) [''Desktop''])"
    by code_simp
  from archive_named_entries_never_moved [OF h, of archives_folder "[''Desktop'']"
      archives_folder "''T''"] h c
  show ?thesis by simp
qed

section \<open>Forward sweep: nothing eligible\<close>

text \<open>
  C6. A forward sweep of a folder none of whose entries passes the test for
  \<open>files_to_move\<close> leaves the statistics as they were (\<open>files_moved\<close> stays 0 for a
  fresh organizer), calls \<open>shutil.move\<close> never, and creates no dated subfolder: no
  directory creation at \<open>Archive/<timestamp>\<close> is performed, and that path is after
  the sweep what it was before.
\<close>

theorem no_eligible_entries_no_dated_subtree:
  assumes "\<forall>item\<in>set (children (fs s) folder_path). \<not> to_move s folder_path item"
  shows "stats (organize_folder timestamp folder_path s) = stats s
     \<and> Mkdir (folder_path @ [''Archive'', timestamp])
          \<notin> set (new_events s (organize_folder timestamp folder_path s))
     \<and> (\<forall>src dst r. MoveCall src dst r
          \<notin> set (new_events s (organize_folder timestamp folder_path s)))
     \<and> lookup (fs (organize_folder timestamp folder_path s)) (folder_path @ [''Archive'', timestamp])
          = lookup (fs s) (folder_path @ [''Archive'', timestamp])"
proof -
  from organize_folder_shape [of timestamp folder_path s] obtain pre items s2 where
    sh: "organize_folder timestamp folder_path s
           = move_items folder_path (folder_path @ [''Archive'', timestamp]) items s2"
      "log s2 = log s @ map Mkdir pre" "stats s2 = stats s"
      "\<forall>i\<in>set items. i \<in> set (children (fs s) folder_path) \<and> to_move s folder_path i"
      "(\<forall>i\<in>set (children (fs s) folder_path). \<not> to_move s folder_path i) \<longrightarrow>
          set pre \<subseteq> set (path_prefixes (folder_path @ [''Archive'']))
          \<and> fs s2 = fs s @ map (\<lambda>p. (p, Dir)) pre"
    by blast
  from sh(4) assms have "items = []" by (cases items) auto
  with sh(1) have res: "organize_folder timestamp folder_path s = s2" by simp
  from sh(5) assms have pre: "set pre \<subseteq> set (path_prefixes (folder_path @ [''Archive'']))"
    and fs2: "fs s2 = fs s @ map (\<lambda>p. (p, Dir)) pre" by blast+
  have notpre: "folder_path @ [''Archive'', timestamp] \<notin> set pre"
  proof
    assume "folder_path @ [''Archive'', timestamp] \<in> set pre"
    with pre have "folder_path @ [''Archive'', timestamp]
        \<in> set (path_prefixes (folder_path @ [''Archive'']))" by blast
    from path_prefixes_prefix [OF this] obtain r where
      "folder_path @ [''Archive''] = (folder_path @ [''Archive'', timestamp]) @ r" ..
    then show False by simp
  qed
  have ne: "new_events s s2 = map Mkdir pre" using sh(2) by (rule new_events_append)
  show ?thesis
    using res sh(3) ne notpre lookup_append_created [OF notpre, of "fs s"] fs2 by auto
qed

text \<open>Scenario 2: a folder holding only \<open>desktop.ini\<close> and \<open>thumbs.db\<close>.\<close>

theorem no_eligible_entries_no_dated_subtree_witness:
  "children (fs system_only_folder) [''Desktop''] = [''desktop.ini'', ''thumbs.db'']
   \<and> \<not> to_move system_only_folder [''Desktop''] ''desktop.ini''
   \<and> \<not> to_move system_only_folder [''Desktop''] ''thumbs.db''
   \<and> stats (organize_folder ''T'' [''Desktop''] system_only_folder) = stats system_only_folder
   \<and> files_moved (stats (organize_folder ''T'' [''Desktop''] system_only_folder)) = 0
   \<and> Mkdir [''Desktop'', ''Archive'', ''T'']
        \<notin> set (new_events system_only_folder
                  (organize_folder ''T'' [''Desktop''] system_only_folder))
   \<and> lookup (fs (organize_folder ''T'' [''Desktop''] system_only_folder))
        [''Desktop'', ''Archive'', ''T''] = None"
proof -
  have c: "children (fs system_only_folder) [''Desktop''] = [''desktop.ini'', ''thumbs.db'']"
    by code_simp
  have n: "\<not> to_move system_only_folder [''Desktop''] ''desktop.ini''"
    "\<not> to_move system_only_folder [''Desktop''] ''thumbs.db''"
    by code_simp+
  from c n have h: "\<forall>item\<in>set (children (fs system_only_folder) [''Desktop'']).
       \<not> to_move system_only_folder [''Desktop''] item"
    by simp
  have z: "files_moved (stats system_only_folder) = 0"
    "lookup (fs system_only_folder) [''Desktop'', ''Archive'', ''T''] = None"
    by code_simp+
  from no_eligible_entries_no_dated_subtree [OF h, of "''T''"] c n z show ?thesis by simp
qed

section \<open>Forward sweep: locked files\<close>

lemma lock_count_decrement:
  "lock_count (s\<lparr>locks := map (\<lambda>(p, n). if p = src then (p, n - 1) else (p, n)) (locks s)\<rparr>) src
     = lock_count s src - 1"
proof -
  have "map_of (map (\<lambda>(p, n). if p = src then (p, n - 1) else (p, n)) l) src
      = map_option (\<lambda>n. n - 1) (map_of l src)" for l :: "(path \<times> nat) list"
    by (induction l) auto
  then show ?thesis by (simp add: lock_count_def split: option.splits)
qed

lemma shutil_move_locked:
  assumes "0 < lock_count s src"
  shows "\<exists>s'. shutil_move src dst s = (Some PermissionError, s')
     \<and> log s' = log s @ [MoveCall src dst (Some PermissionError)]
     \<and> fs s' = fs s \<and> unreadable s' = unreadable s \<and> stats s' = stats s
     \<and> lock_count s' src = lock_count s src - 1"
  using assms lock_count_decrement [where s = s and src = src]
  by (simp add: shutil_move_def move_result_def lock_count_def)

lemma get_file_size_cong:
  "fs s1 = fs s \<Longrightarrow> unreadable s1 = unreadable s \<Longrightarrow> get_file_size s1 p = get_file_size s p"
  by (simp add: get_file_size_def os_stat_def)

lemma retry_move_locked:
  "0 < n \<Longrightarrow> n \<le> lock_count s src \<Longrightarrow>
   \<exists>s'. retry_move n src dst s = (Some PermissionError, s')
     \<and> log s' = log s @ concat (replicate n [MoveCall src dst (Some PermissionError), Sleep 1])
     \<and> fs s' = fs s \<and> unreadable s' = unreadable s
     \<and> errors (stats s') = errors (stats s)
     \<and> files_moved (stats s') = files_moved (stats s)
     \<and> space_cleared (stats s') = space_cleared (stats s) + n * get_file_size s src"
proof (induction n arbitrary: s)
  case 0
  then show ?case by simp
next
  case (Suc n)
  let ?s1 = "add_space_cleared (get_file_size s src) s"
  have l1: "lock_count ?s1 src = lock_count s src" "log ?s1 = log s" "fs ?s1 = fs s"
    "unreadable ?s1 = unreadable s"
    "errors (stats ?s1) = errors (stats s)" "files_moved (stats ?s1) = files_moved (stats s)"
    "space_cleared (stats ?s1) = space_cleared (stats s) + get_file_size s src"
    by (simp_all add: add_space_cleared_def lock_count_def)
  from Suc.prems l1(1) have "0 < lock_count ?s1 src" by simp
  from shutil_move_locked [OF this, of dst] obtain s2 where
    s2: "shutil_move src dst ?s1 = (Some PermissionError, s2)"
      "log s2 = log ?s1 @ [MoveCall src dst (Some PermissionError)]"
      "fs s2 = fs ?s1" "unreadable s2 = unreadable ?s1" "stats s2 = stats ?s1"
      "lock_count s2 src = lock_count ?s1 src - 1" by blast
  let ?s3 = "time_sleep 1 s2"
  have l3: "log ?s3 = log s @ [MoveCall src dst (Some PermissionError), Sleep 1]"
    "fs ?s3 = fs s" "unreadable ?s3 = unreadable s" "stats ?s3 = stats ?s1"
    "lock_count ?s3 src = lock_count s src - 1"
    using s2 l1 by (simp_all add: time_sleep_def lock_count_def)
  show ?case
  proof (cases "n = 0")
    case True
    with s2(1) have "retry_move (Suc n) src dst s = (Some PermissionError, ?s3)"
      by (simp add: Let_def)
    then show ?thesis using True l3 l1 by simp
  next
    case False
    with s2(1) have step: "retry_move (Suc n) src dst s = retry_move n src dst ?s3"
      by (simp add: Let_def)
    from False Suc.prems l3(5) have "0 < n" "n \<le> lock_count ?s3 src" by simp_all
    from Suc.IH [OF this] obtain s' where
      s': "retry_move n src dst ?s3 = (Some PermissionError, s')"
        "log s' = log ?s3 @ concat (replicate n [MoveCall src dst (Some PermissionError), Sleep 1])"
        "fs s' = fs ?s3" "unreadable s' = unreadable ?s3"
        "errors (stats s') = errors (stats ?s3)"
        "files_moved (stats s') = files_moved (stats ?s3)"
        "space_cleared (stats s') = space_cleared (stats ?s3) + n * get_file_size ?s3 src"
      by blast
    have "get_file_size ?s3 src = get_file_size s src"
      using l3(2,3) by (rule get_file_size_cong)
    with step s' l3 l1 show ?thesis by simp
  qed
qed

text \<open>
  C8. When the next three \<open>shutil.move\<close> calls on an entry fail because the file is
  held by another process, the sweep makes exactly three calls for it, each followed by
  a sleep of one second, moves nothing, adds one to \<open>errors\<close> and leaves
  \<open>files_moved\<close> as it was; it then goes on with the remaining entries, for each of
  which \<open>shutil.move\<close> is called.
\<close>

theorem locked_entry_three_attempts_then_error:
  assumes "3 \<le> lock_count s (folder_path @ [item])"
  shows "\<exists>s'. move_items folder_path dated_subfolder (item # rest) s
                = move_items folder_path dated_subfolder rest s'
     \<and> new_events s s'
         = [MoveCall (folder_path @ [item]) (dated_subfolder @ [item]) (Some PermissionError), Sleep 1,
            MoveCall (folder_path @ [item]) (dated_subfolder @ [item]) (Some PermissionError), Sleep 1,
            MoveCall (folder_path @ [item]) (dated_subfolder @ [item]) (Some PermissionError), Sleep 1]
     \<and> fs s' = fs s
     \<and> errors (stats s') = errors (stats s) + 1
     \<and> files_moved (stats s') = files_moved (stats s)
     \<and> (\<forall>i\<in>set rest. \<exists>q. MoveCall (folder_path @ [i]) (dated_subfolder @ [i]) q
            \<in> set (new_events s' (move_items folder_path dated_subfolder rest s')))"
proof -
  let ?src = "folder_path @ [item]" and ?dst = "dated_subfolder @ [item]"
  have "0 < (3::nat)" by simp
  from retry_move_locked [OF this assms, of ?dst] obtain s1 where
    s1: "retry_move 3 ?src ?dst s = (Some PermissionError, s1)"
      "log s1 = log s @ concat (replicate 3 [MoveCall ?src ?dst (Some PermissionError), Sleep 1])"
      "fs s1 = fs s" "errors (stats s1) = errors (stats s)"
      "files_moved (stats s1) = files_moved (stats s)" by blast
  let ?s' = "incr_errors s1"
  have step: "move_items folder_path dated_subfolder (item # rest) s
                = move_items folder_path dated_subfolder rest ?s'"
    using s1(1) by (simp add: Let_def)
  have "log ?s' = log s @ [MoveCall ?src ?dst (Some PermissionError), Sleep 1,
            MoveCall ?src ?dst (Some PermissionError), Sleep 1,
            MoveCall ?src ?dst (Some PermissionError), Sleep 1]"
    using s1(2) by (simp add: incr_errors_def numeral_3_eq_3)
  then have ne: "new_events s ?s' = [MoveCall ?src ?dst (Some PermissionError), Sleep 1,
            MoveCall ?src ?dst (Some PermissionError), Sleep 1,
            MoveCall ?src ?dst (Some PermissionError), Sleep 1]"
    by (rule new_events_append)
  have st: "fs ?s' = fs s" "errors (stats ?s') = errors (stats s) + 1"
    "files_moved (stats ?s') = files_moved (stats s)"
    using s1(3,4,5) by (simp_all add: incr_errors_def)
  from move_items_log [of folder_path dated_subfolder rest ?s'] obtain evs where
    e: "log (move_items folder_path dated_subfolder rest ?s') = log ?s' @ evs"
      "\<forall>i\<in>set rest. \<exists>q. MoveCall (folder_path @ [i]) (dated_subfolder @ [i]) q \<in> set evs"
    by blast
  from e(1) have "new_events ?s' (move_items folder_path dated_subfolder rest ?s') = evs"
    by (rule new_events_append)
  with e(2) have rest: "\<forall>i\<in>set rest. \<exists>q. MoveCall (folder_path @ [i]) (dated_subfolder @ [i]) q
            \<in> set (new_events ?s' (move_items folder_path dated_subfolder rest ?s'))" by simp
  show ?thesis
    using step ne st rest by (intro exI [of _ ?s']) (intro conjI)
qed

text \<open>A folder whose first entry is locked for three attempts.\<close>

theorem locked_entry_three_attempts_then_error_witness:
  "3 \<le> lock_count locked_and_free ([''Desktop''] @ [''a.zip''])
   \<and> (\<exists>s'. move_items [''Desktop''] [''Desktop'', ''Archive'', ''T''] (''a.zip'' # [''b.txt''])
               locked_and_free
             = move_items [''Desktop''] [''Desktop'', ''Archive'', ''T''] [''b.txt''] s'
        \<and> new_events locked_and_free s'
            = [MoveCall ([''Desktop''] @ [''a.zip'']) ([''Desktop'', ''Archive'', ''T''] @ [''a.zip''])
                 (Some PermissionError), Sleep 1,
               MoveCall ([''Desktop''] @ [''a.zip'']) ([''Desktop'', ''Archive'', ''T''] @ [''a.zip''])
                 (Some PermissionError), Sleep 1,
               MoveCall ([''Desktop''] @ [''a.zip'']) ([''Desktop'', ''Archive'', ''T''] @ [''a.zip''])
                 (Some PermissionError), Sleep 1]
        \<and> fs s' = fs locked_and_free
        \<and> errors (stats s') = errors (stats locked_and_free) + 1
        \<and> files_moved (stats s') = files_moved (stats locked_and_free)
        \<and> (\<forall>i\<in>set [''b.txt'']. \<exists>q. MoveCall ([''Desktop''] @ [i])
               ([''Desktop'', ''Archive'', ''T''] @ [i]) q
              \<in> set (new_events s'
                  (move_items [''Desktop''] [''Desktop'', ''Archive'', ''T''] [''b.txt''] s'))))"
proof
  show h: "3 \<le> lock_count locked_and_free ([''Desktop''] @ [''a.zip''])"
    by code_simp
  show "\<exists>s'. move_items [''Desktop''] [''Desktop'', ''Archive'', ''T''] (''a.zip'' # [''b.txt''])
               locked_and_free
             = move_items [''Desktop''] [''Desktop'', ''Archive'', ''T''] [''b.txt''] s'
        \<and> new_events locked_and_free s'
            = [MoveCall ([''Desktop''] @ [''a.zip'']) ([''Desktop'', ''Archive'', ''T''] @ [''a.zip''])
                 (Some PermissionError), Sleep 1,
               MoveCall ([''Desktop''] @ [''a.zip'']) ([''Desktop'', ''Archive'', ''T''] @ [''a.zip''])
                 (Some PermissionError), Sleep 1,
               MoveCall ([''Desktop''] @ [''a.zip'']) ([''Desktop'', ''Archive'', ''T''] @ [''a.zip''])
                 (Some PermissionError), Sleep 1]
        \<and> fs s' = fs locked_and_free
        \<and> errors (stats s') = errors (stats locked_and_free) + 1
        \<and> files_moved (stats s') = files_moved (stats locked_and_free)
        \<and> (\<forall>i\<in>set [''b.txt'']. \<exists>q. MoveCall ([''Desktop''] @ [i])
               ([''Desktop'', ''Archive'', ''T''] @ [i]) q
              \<in> set (new_events s'
                  (move_items [''Desktop''] [''Desktop'', ''Archive'', ''T''] [''b.txt''] s')))"
    by (rule locked_entry_three_attempts_then_error [OF h])
qed

text \<open>
  C1. The claim: \<open>space_cleared\<close> grows by the size of a file when and only when its
  move succeeds, and once. The code adds the size before every attempt: a 7-byte file
  locked for all three attempts leaves \<open>space_cleared\<close> at 21 with nothing moved and
  the file still in place, and the same file locked for one attempt and then moved
  leaves it at 14.
\<close>

theorem space_cleared_counts_failed_attempts:
  "stats (organize_folder ''T'' [''Desktop''] (locked_folder 3))
     = \<lparr>files_moved = 0, space_cleared = 21, errors = 1\<rparr>
   \<and> lookup (fs (organize_folder ''T'' [''Desktop''] (locked_folder 3))) [''Desktop'', ''a.zip'']
     = Some (File 7)
   \<and> stats (organize_folder ''T'' [''Desktop''] (locked_folder 1))
     = \<lparr>files_moved = 1, space_cleared = 14, errors = 0\<rparr>"
  by code_simp

section \<open>Existing destination\<close>

text \<open>
  C3. The claim: a move whose destination exists is skipped, the source stays and no
  statistic changes, in forward and repair sweeps alike. \<open>move_to_category\<close> tests the
  destination first: with \<open>a.zip\<close> present both in the dated folder and in its
  \<open>ZIP_Files\<close> folder it calls \<open>shutil.move\<close> never and changes nothing. The forward
  sweep does not test: with a 5-byte \<open>a.zip\<close> already at \<open>Archive/T/a.zip\<close>, the
  sweep replaces it by the 7-byte \<open>a.zip\<close> of the source folder, which leaves the
  source folder, and counts one file moved and 7 bytes cleared.
\<close>

theorem forward_move_overwrites_existing_destination:
  "lookup (fs collision_folder) [''Desktop'', ''Archive'', ''T'', ''a.zip''] = Some (File 5)
   \<and> lookup (fs (organize_folder ''T'' [''Desktop''] collision_folder))
        [''Desktop'', ''Archive'', ''T'', ''a.zip''] = Some (File 7)
   \<and> lookup (fs (organize_folder ''T'' [''Desktop''] collision_folder))
        [''Desktop'', ''a.zip''] = None
   \<and> stats (organize_folder ''T'' [''Desktop''] collision_folder)
        = \<lparr>files_moved = 1, space_cleared = 7, errors = 0\<rparr>
   \<and> fs (move_to_category zip_categories (dated @ [''a.zip'']) dated repair_collision_tree)
        = fs repair_collision_tree
   \<and> log (move_to_category zip_categories (dated @ [''a.zip'']) dated repair_collision_tree)
        = []"
  by code_simp

section \<open>System-entry filter and errors\<close>

lemma basename_snoc: "basename (p @ [x]) = x"
  by (simp add: basename_def)

text \<open>
  C9 (as amended). \<open>is_system_file\<close> never raises. When \<open>stat\<close> fails on the entry,
  the directory test answers \<open>False\<close> and \<open>is_system_file\<close> returns whether the
  lower-cased name is in the list of system files; so an entry on which \<open>stat\<close> fails
  and whose name is not in that list, is not \<open>Archive\<close> and does not contain
  \<open>archive\<close>, is kept for the sweep.
\<close>

theorem is_system_file_error_keeps_entry_eligible:
  "(\<forall>e. is_system_file_body s file_path \<noteq> Inl e)
   \<and> (os_stat s file_path = Inl err \<longrightarrow>
        is_system_file s file_path = (lower (basename file_path) \<in> set system_files))
   \<and> (os_stat s (folder_path @ [item]) = Inl err \<and> lower item \<notin> set system_files
        \<and> item \<noteq> ''Archive'' \<and> \<not> str_contains ''archive'' (lower item) \<longrightarrow>
        to_move s folder_path item)"
proof (intro conjI)
  show "\<forall>e. is_system_file_body s file_path \<noteq> Inl e"
    by (simp add: is_system_file_body_def Let_def)
  have isdir: "os_stat s p = Inl err \<Longrightarrow> \<not> os_path_isdir s p" for p
    by (simp add: os_path_isdir_def)
  show "os_stat s file_path = Inl err \<longrightarrow>
        is_system_file s file_path = (lower (basename file_path) \<in> set system_files)"
    using isdir [of file_path]
    by (simp add: is_system_file_def is_system_file_body_def Let_def)
  show "os_stat s (folder_path @ [item]) = Inl err \<and> lower item \<notin> set system_files
        \<and> item \<noteq> ''Archive'' \<and> \<not> str_contains ''archive'' (lower item) \<longrightarrow>
        to_move s folder_path item"
    using isdir [of "folder_path @ [item]"]
    by (simp add: to_move_def is_system_file_def is_system_file_body_def Let_def basename_snoc)
qed

text \<open>A directory named \<open>old recycle bin\<close> on which \<open>stat\<close> fails.\<close>

theorem is_system_file_error_keeps_entry_eligible_witness:
  "os_stat unreadable_folder ([''Desktop''] @ [''old recycle bin'']) = Inl PermissionError
   \<and> lower ''old recycle bin'' \<notin> set system_files
   \<and> ''old recycle bin'' \<noteq> ''Archive''
   \<and> \<not> str_contains ''archive'' (lower ''old recycle bin'')
   \<and> \<not> is_system_file unreadable_folder [''Desktop'', ''old recycle bin'']
   \<and> to_move unreadable_folder [''Desktop''] ''old recycle bin''"
proof -
  have h: "os_stat unreadable_folder ([''Desktop''] @ [''old recycle bin'']) = Inl PermissionError"
    "lower ''old recycle bin'' \<notin> set system_files"
    "''old recycle bin'' \<noteq> ''Archive''"
    "\<not> str_contains ''archive'' (lower ''old recycle bin'')"
    by code_simp+
  note t = is_system_file_error_keeps_entry_eligible [of unreadable_folder
      "[''Desktop''] @ [''old recycle bin'']" PermissionError "[''Desktop'']" "''old recycle bin''"]
  from t h have a: "is_system_file unreadable_folder ([''Desktop''] @ [''old recycle bin''])
      = (lower (basename ([''Desktop''] @ [''old recycle bin''])) \<in> set system_files)"
    by blast
  from t h have b: "to_move unreadable_folder [''Desktop''] ''old recycle bin''" by blast
  from a h(2) have "\<not> is_system_file unreadable_folder [''Desktop'', ''old recycle bin'']"
    by (simp add: basename_def)
  with h b show ?thesis by simp
qed

text \<open>
  The claim as stated fails there: the directory is excluded while \<open>stat\<close> works, and
  with \<open>stat\<close> failing it is eligible and the sweep moves it.
\<close>

theorem stat_error_entry_is_swept:
  "os_stat unreadable_folder [''Desktop'', ''old recycle bin''] = Inl PermissionError
   \<and> to_move unreadable_folder [''Desktop''] ''old recycle bin''
   \<and> \<not> to_move (unreadable_folder\<lparr>unreadable := []\<rparr>) [''Desktop''] ''old recycle bin''
   \<and> new_events unreadable_folder (organize_folder ''T'' [''Desktop''] unreadable_folder)
       = [Mkdir [''Desktop'', ''Archive''], Mkdir [''Desktop'', ''Archive'', ''T''],
          MoveCall [''Desktop'', ''old recycle bin'']
            [''Desktop'', ''Archive'', ''T'', ''old recycle bin''] None]"
  by code_simp

section \<open>Repair sweep: statistics\<close>

lemma move_misplaced_stats:
  "stats (snd (move_misplaced cats dated_path items s)) = stats s"
proof (induction items arbitrary: s)
  case Nil
  then show ?case by simp
next
  case (Cons item rest)
  let ?src = "dated_path @ [item]"
  let ?dst = "dated_path @ [get_category_for_extension cats (snd (splitext (lower item))), item]"
  obtain q s1 where mv: "shutil_move ?src ?dst s = (q, s1)" by (cases "shutil_move ?src ?dst s")
  from shutil_move_frame(2) [OF mv] have "stats s1 = stats s" .
  with Cons.IH [of s1] Cons.IH [of s] mv show ?case
    by (cases q) (simp_all add: Let_def)
qed

lemma write_desktop_ini_stats:
  "write_desktop_ini p s = (r, s') \<Longrightarrow> stats s' = stats s"
  using write_file_frame [of "p @ [''Desktop.ini'']" s r s']
  by (simp add: write_desktop_ini_def Let_def)

lemma fix_categories_stats:
  "stats (snd (fix_categories cats names dated_path s)) = stats s"
proof (induction names arbitrary: s)
  case Nil
  then show ?case by simp
next
  case (Cons category rest)
  let ?cp = "dated_path @ [category]"
  obtain r1 s1 where mk: "os_makedirs ?cp True s = (r1, s1)" by (cases "os_makedirs ?cp True s")
  from os_makedirs_frame [OF mk] have st1: "stats s1 = stats s" by blast
  obtain r2 s2 where wr: "write_desktop_ini ?cp s1 = (r2, s2)"
    by (cases "write_desktop_ini ?cp s1")
  from write_desktop_ini_stats [OF wr] st1 have st2: "stats s2 = stats s" by simp
  show ?case
  proof (cases r1)
    case (Some e)
    with mk st1 show ?thesis by (simp add: Let_def)
  next
    case None
    note r1 = None
    show ?thesis
    proof (cases r2)
      case (Some e)
      with mk r1 wr st2 show ?thesis by (simp add: Let_def)
    next
      case None
      note r2 = None
      show ?thesis
      proof (cases "os_listdir s2 dated_path")
        case (Inl e)
        with mk r1 wr r2 st2 show ?thesis by (simp add: Let_def)
      next
        case (Inr items)
        obtain r3 s3 where mm: "move_misplaced cats dated_path items s2 = (r3, s3)"
          by (cases "move_misplaced cats dated_path items s2")
        from move_misplaced_stats [of cats dated_path items s2] mm st2
        have st3: "stats s3 = stats s" by simp
        show ?thesis
          using mk r1 wr r2 Inr mm st3 Cons.IH [of s3]
          by (cases r3) (simp_all add: Let_def)
      qed
    qed
  qed
qed

lemma fix_dated_folders_stats:
  "stats (snd (fix_dated_folders cats archive_path names s)) = stats s"
proof (induction names arbitrary: s)
  case Nil
  then show ?case by simp
next
  case (Cons dated_folder rest)
  let ?dp = "archive_path @ [dated_folder]"
  obtain r1 s1 where fc: "fix_categories cats (map fst cats) ?dp s = (r1, s1)"
    by (cases "fix_categories cats (map fst cats) ?dp s")
  from fix_categories_stats [of cats "map fst cats" ?dp s] fc have "stats s1 = stats s" by simp
  with fc Cons.IH [of s1] Cons.IH [of s] show ?case
    by (cases r1) (simp_all add: Let_def)
qed

lemma fix_archive_paths_stats:
  "stats (snd (fix_archive_paths cats paths s)) = stats s"
proof (induction paths arbitrary: s)
  case Nil
  then show ?case by simp
next
  case (Cons archive_path rest)
  show ?case
  proof (cases "os_listdir s archive_path")
    case (Inl e)
    with Cons.IH [of s] show ?thesis by simp
  next
    case (Inr names)
    obtain r1 s1 where fd: "fix_dated_folders cats archive_path names s = (r1, s1)"
      by (cases "fix_dated_folders cats archive_path names s")
    from fix_dated_folders_stats [of cats archive_path names s] fd
    have "stats s1 = stats s" by simp
    with fd Inr Cons.IH [of s1] Cons.IH [of s] show ?thesis
      by (cases r1) simp_all
  qed
qed

text \<open>
  C10. The repair sweep leaves the statistics entirely as they were, whether its moves
  succeed or fail: \<open>move_to_category\<close> and \<open>fix_onedrive_archives\<close> return a state
  with the same \<open>files_moved\<close>, \<open>space_cleared\<close> and \<open>errors\<close>.
\<close>

theorem repair_sweep_leaves_statistics:
  "stats (move_to_category cats file_path dated_folder s) = stats s
   \<and> stats (fix_onedrive_archives cats home s) = stats s"
proof
  let ?dst = "dated_folder @ [category_of_move cats (snd (splitext (lower (basename file_path))))]
                @ [basename file_path]"
  obtain q s1 where mv: "shutil_move file_path ?dst s = (q, s1)"
    by (cases "shutil_move file_path ?dst s")
  from shutil_move_frame(2) [OF mv] mv
  show "stats (move_to_category cats file_path dated_folder s) = stats s"
    by (simp add: move_to_category_def Let_def)
  show "stats (fix_onedrive_archives cats home s) = stats s"
    unfolding fix_onedrive_archives_def Let_def by (rule fix_archive_paths_stats)
qed

section \<open>Repair sweep: idempotence\<close>

text \<open>
  C2. The claim: a second repair sweep of an unchanged tree moves nothing and creates
  no folder, and no sweep moves a file already filed in its category folder.
  \<open>fix_all_archives\<close> walks every directory below the archive root and takes any
  directory with an underscore in its name for a dated folder, the category folder
  \<open>ZIP_Files\<close> included. With the single category \<open>ZIP_Files\<close>, on a tree where
  \<open>a.zip\<close> is already filed under \<open>ZIP_Files\<close>, the sweep creates
  \<open>ZIP_Files/ZIP_Files\<close> and moves the filed \<open>a.zip\<close> into it. On a tree with a
  stray \<open>a.zip\<close> in the dated folder, the first sweep files \<open>a.zip\<close> under
  \<open>ZIP_Files\<close>, and the second sweep creates \<open>ZIP_Files/ZIP_Files\<close> and moves the
  filed \<open>a.zip\<close> there.
\<close>

theorem walk_repair_refiles_filed_files:
  "(case fix_all_archives 10 zip_categories [''home''] [''Desktop''] [] filed_zip_tree of
      None \<Rightarrow> False
    | Some t1 \<Rightarrow>
        lookup (fs filed_zip_tree) (dated @ [''ZIP_Files'', ''a.zip'']) = Some (File 9)
        \<and> Mkdir (dated @ [''ZIP_Files'', ''ZIP_Files'']) \<in> set (log t1)
        \<and> MoveCall (dated @ [''ZIP_Files'', ''a.zip''])
            (dated @ [''ZIP_Files'', ''ZIP_Files'', ''a.zip'']) None \<in> set (log t1)
        \<and> lookup (fs t1) (dated @ [''ZIP_Files'', ''a.zip'']) = None
        \<and> lookup (fs t1) (dated @ [''ZIP_Files'', ''ZIP_Files'', ''a.zip'']) = Some (File 9))
   \<and> (case fix_all_archives 10 zip_categories [''home''] [''Desktop''] [] stray_zip_tree of
        None \<Rightarrow> False
      | Some t1 \<Rightarrow>
          lookup (fs t1) (dated @ [''ZIP_Files'', ''a.zip'']) = Some (File 9)
          \<and> (case fix_all_archives 10 zip_categories [''home''] [''Desktop''] [] t1 of
               None \<Rightarrow> False
             | Some t2 \<Rightarrow>
                 new_events t1 t2
                   = [WriteFile (dated @ [''ZIP_Files'', ''Desktop.ini'']),
                      Mkdir (dated @ [''ZIP_Files'', ''ZIP_Files'']),
                      WriteFile (dated @ [''ZIP_Files'', ''ZIP_Files'', ''Desktop.ini'']),
                      MoveCall (dated @ [''ZIP_Files'', ''a.zip''])
                        (dated @ [''ZIP_Files'', ''ZIP_Files'', ''a.zip'']) None,
                      MoveCall (dated @ [''ZIP_Files'', ''Desktop.ini''])
                        (dated @ [''ZIP_Files'', ''Others'', ''Desktop.ini''])
                        (Some FileNotFoundError)]
                 \<and> lookup (fs t2) (dated @ [''ZIP_Files'', ''a.zip'']) = None
                 \<and> lookup (fs t2) (dated @ [''ZIP_Files'', ''ZIP_Files'', ''a.zip''])
                     = Some (File 9)))"
  by code_simp

end
